theory Spec2Isabelle
  imports Complex_Main "HOL-Library.Word" "HOL-Library.AList"
    "HOL-Library.Char_ord" "HOL-Library.List_Lexorder"
begin

section \<open>The profiler of cf4ocl (src/lib/profiler.c)\<close>

text \<open>
  A shallow embedding of \<^verbatim>\<open>profiler.c\<close>. Every function of the file that the
  properties below are about is translated, with the names of the source. A pointer that can be
  \<^verbatim>\<open>NULL\<close> is an \<open>option\<close>, a \<^verbatim>\<open>GHashTable\<close> is an association list in
  iteration order, a \<^verbatim>\<open>GList\<close> is a list, \<^verbatim>\<open>cl_ulong\<close> is a 64-bit word and
  \<^verbatim>\<open>guint\<close> a 32-bit word. Undefined behaviour of the C program (reading through
  \<^verbatim>\<open>NULL\<close>, an index outside an allocation, an uninitialised iterator) is the
  left summand \<open>fault\<close> of a function's result.
\<close>

subsection \<open>Machine types\<close>

type_synonym cl_ulong = "64 word"
type_synonym guint = "32 word"

datatype fault = NullDeref | OutOfBounds | UninitializedRead

text \<open>
  A \<^verbatim>\<open>double\<close>. Only the quotient of two converted \<^verbatim>\<open>cl_ulong\<close> values is
  computed by the profiler. The classification of that quotient (finite, infinite, not a number)
  is exact, since the conversion maps exactly the integer 0 to 0.0; the finite value is kept as
  the real quotient, the rounding of the conversion and of the division is not modelled.
\<close>

datatype gdouble = Finite real | PlusInf | NaN

definition ulong_div_double :: "cl_ulong \<Rightarrow> cl_ulong \<Rightarrow> gdouble" where
  \<comment> \<open>\<^verbatim>\<open>((double) a) / ((double) b)\<close> under IEEE 754\<close>
  "ulong_div_double a b =
     (if b \<noteq> 0 then Finite (real (unat a) / real (unat b))
      else if a = 0 then NaN else PlusInf)"

subsection \<open>GLib: hash tables, lists, timers\<close>

text \<open>
  GLib is an external library. Its hash-table functions start with
  \<^verbatim>\<open>g_return_val_if_fail (hash_table != NULL, ...)\<close>: handed \<^verbatim>\<open>NULL\<close> they log a
  critical message and return a default (\<^verbatim>\<open>FALSE\<close>, 0, \<^verbatim>\<open>NULL\<close>, or nothing).
  The iterator is different: \<^verbatim>\<open>g_hash_table_iter_init\<close> on \<^verbatim>\<open>NULL\<close> returns
  without writing the iterator, and \<^verbatim>\<open>g_hash_table_iter_next\<close> then reads the
  caller's uninitialised stack object.
\<close>

type_synonym ('k, 'v) GHashTable = "('k \<times> 'v) list"

definition g_hash_table_contains :: "('k, 'v) GHashTable option \<Rightarrow> 'k \<Rightarrow> bool" where
  "g_hash_table_contains t k = (case t of None \<Rightarrow> False | Some kvs \<Rightarrow> map_of kvs k \<noteq> None)"

definition g_hash_table_size :: "('k, 'v) GHashTable option \<Rightarrow> guint" where
  "g_hash_table_size t = (case t of None \<Rightarrow> 0 | Some kvs \<Rightarrow> of_nat (length kvs))"

definition g_hash_table_insert ::
  "('k, 'v) GHashTable option \<Rightarrow> 'k \<Rightarrow> 'v \<Rightarrow> ('k, 'v) GHashTable option" where
  "g_hash_table_insert t k v = (case t of None \<Rightarrow> None | Some kvs \<Rightarrow> Some (AList.update k v kvs))"

definition g_hash_table_replace ::
  "('k, 'v) GHashTable option \<Rightarrow> 'k \<Rightarrow> 'v \<Rightarrow> ('k, 'v) GHashTable option" where
  \<comment> \<open>as \<^verbatim>\<open>g_hash_table_insert\<close>, but the new key pointer is kept: the same table\<close>
  "g_hash_table_replace t k v = g_hash_table_insert t k v"

definition g_hash_table_lookup :: "('k, 'v) GHashTable option \<Rightarrow> 'k \<Rightarrow> 'v option" where
  "g_hash_table_lookup t k = (case t of None \<Rightarrow> None | Some kvs \<Rightarrow> map_of kvs k)"

definition g_hash_table_remove :: "('k, 'v) GHashTable \<Rightarrow> 'k \<Rightarrow> ('k, 'v) GHashTable" where
  "g_hash_table_remove kvs k = AList.delete k kvs"

definition GPOINTER_TO_UINT :: "guint option \<Rightarrow> guint" where
  \<comment> \<open>an id stored with \<^verbatim>\<open>GUINT_TO_POINTER\<close>; the \<^verbatim>\<open>NULL\<close> of a failed lookup reads as 0\<close>
  "GPOINTER_TO_UINT p = (case p of None \<Rightarrow> 0 | Some u \<Rightarrow> u)"

text \<open>
  \<^verbatim>\<open>g_list_sort_with_data\<close>: GLib's recursive merge sort. The list is cut after
  its first \<open>n div 2\<close> cells, both parts are sorted, and the merge takes from the first part
  unless the comparison is positive.
\<close>

fun g_list_sort_merge :: "('a \<Rightarrow> 'a \<Rightarrow> int) \<Rightarrow> 'a list \<Rightarrow> 'a list \<Rightarrow> 'a list" where
  "g_list_sort_merge cmp [] l2 = l2"
| "g_list_sort_merge cmp l1 [] = l1"
| "g_list_sort_merge cmp (x # l1) (y # l2) =
     (if cmp x y \<le> 0 then x # g_list_sort_merge cmp l1 (y # l2)
      else y # g_list_sort_merge cmp (x # l1) l2)"

function g_list_sort_with_data :: "('a \<Rightarrow> 'a \<Rightarrow> int) \<Rightarrow> 'a list \<Rightarrow> 'a list" where
  "g_list_sort_with_data cmp [] = []"
| "g_list_sort_with_data cmp [x] = [x]"
| "g_list_sort_with_data cmp (x # y # zs) =
     g_list_sort_merge cmp
       (g_list_sort_with_data cmp (take (length (x # y # zs) div 2) (x # y # zs)))
       (g_list_sort_with_data cmp (drop (length (x # y # zs) div 2) (x # y # zs)))"
  by pat_completeness auto
termination
  by (relation "measure (\<lambda>(cmp, l). length l)") auto

text \<open>
  A \<^verbatim>\<open>GTimer\<close>, with the host clock read passed in as \<open>now\<close> (microseconds).
  \<^verbatim>\<open>g_timer_stop\<close> and \<^verbatim>\<open>g_timer_elapsed\<close> check their argument: on
  \<^verbatim>\<open>NULL\<close> they log a critical message and return (0 for the elapsed time).
\<close>

record GTimer =
  timer_start :: nat
  timer_end :: nat
  timer_active :: bool

datatype glib_critical = Critical string

definition g_timer_new :: "nat \<Rightarrow> GTimer" where
  "g_timer_new now = \<lparr>timer_start = now, timer_end = now, timer_active = True\<rparr>"

definition g_timer_stop :: "nat \<Rightarrow> GTimer option \<Rightarrow> glib_critical list \<times> GTimer option" where
  "g_timer_stop now t =
     (case t of None \<Rightarrow> ([Critical ''g_timer_stop: assertion timer != NULL failed''], None)
      | Some tm \<Rightarrow> ([], Some (tm\<lparr>timer_end := now, timer_active := False\<rparr>)))"

definition g_timer_elapsed :: "nat \<Rightarrow> GTimer option \<Rightarrow> glib_critical list \<times> real" where
  "g_timer_elapsed now t =
     (case t of None \<Rightarrow> ([Critical ''g_timer_elapsed: assertion timer != NULL failed''], 0)
      | Some tm \<Rightarrow>
          ([], real ((if timer_active tm then now else timer_end tm) - timer_start tm) / 1000000))"

subsection \<open>Data of the profiler\<close>

text \<open>
  The types \<^verbatim>\<open>CL4ProfEventAgg\<close>, \<^verbatim>\<open>CL4ProfEvent\<close>, \<^verbatim>\<open>CL4ProfExportOptions\<close> and the
  sort enumerations are declared in \<^verbatim>\<open>profiler.h\<close>, which is not at hand: their fields and
  values are those that \<^verbatim>\<open>profiler.c\<close> reads, writes and initialises.
\<close>

definition CL4_PROF_CMP :: "'a::linorder \<Rightarrow> 'a \<Rightarrow> int" where
  "CL4_PROF_CMP x y = (if x < y then 1 else (if x > y then - 1 else 0))"

datatype CL4ProfEventInstType = CL4_PROF_EV_START | CL4_PROF_EV_END

record CL4ProfEventInst =
  inst_event_name :: string
  inst_queue_name :: string
  inst_id :: guint
  instant :: cl_ulong
  inst_type :: CL4ProfEventInstType

datatype CL4ProfEventInstSort = CL4_PROF_EVENTINST_SORT_INSTANT | CL4_PROF_EVENTINST_SORT_ID

record CL4ProfEventAgg =
  agg_event_name :: string
  absolute_time :: cl_ulong
  relative_time :: "gdouble option"  \<comment> \<open>\<open>None\<close>: not yet written after \<^verbatim>\<open>g_slice_new\<close>\<close>

datatype CL4ProfEventAggSort = CL4_PROF_EVENTAGG_SORT_NAME | CL4_PROF_EVENTAGG_SORT_TIME

record CL4ProfEvent =
  ev_event_name :: string
  ev_queue_name :: string
  t_queued :: cl_ulong
  t_submit :: cl_ulong
  t_start :: cl_ulong
  t_end :: cl_ulong

datatype CL4ProfEventSort =
    CL4_PROF_EVENT_SORT_NAME_EVENT | CL4_PROF_EVENT_SORT_NAME_QUEUE
  | CL4_PROF_EVENT_SORT_T_QUEUED | CL4_PROF_EVENT_SORT_T_SUBMIT
  | CL4_PROF_EVENT_SORT_T_START | CL4_PROF_EVENT_SORT_T_END

datatype cl4_error_code =
    CL4_ERROR_STREAM_WRITE | CL4_ERROR_OPENFILE
  | CL4_ERROR_WRAPPER int  \<comment> \<open>a code set by the event wrapper, which is not in the files at hand\<close>

datatype GError = GError cl4_error_code string

text \<open>
  Modelled from the spec: the event wrapper (\<^verbatim>\<open>CL4Event\<close>,
  \<^verbatim>\<open>cl4_event_get_final_name\<close>) is not in the source files at hand. An event has a
  display name and, for each of the four profiling queries, a device timestamp or an error.
\<close>

record CL4Event =
  final_name :: string
  info_queued :: "GError + cl_ulong"
  info_submit :: "GError + cl_ulong"
  info_start :: "GError + cl_ulong"
  info_end :: "GError + cl_ulong"

datatype cl_profiling_info =
    CL_PROFILING_COMMAND_QUEUED | CL_PROFILING_COMMAND_SUBMIT
  | CL_PROFILING_COMMAND_START | CL_PROFILING_COMMAND_END

text \<open>
  Modelled from the spec: \<^verbatim>\<open>cl4_event_get_profiling_info\<close> is not in the source files at
  hand. It returns the timestamp of the kind asked for, or fails and sets the error.
\<close>

fun cl4_event_get_profiling_info :: "CL4Event \<Rightarrow> cl_profiling_info \<Rightarrow> GError + cl_ulong" where
  "cl4_event_get_profiling_info evt CL_PROFILING_COMMAND_QUEUED = info_queued evt"
| "cl4_event_get_profiling_info evt CL_PROFILING_COMMAND_SUBMIT = info_submit evt"
| "cl4_event_get_profiling_info evt CL_PROFILING_COMMAND_START = info_start evt"
| "cl4_event_get_profiling_info evt CL_PROFILING_COMMAND_END = info_end evt"

text \<open>
  Modelled from the spec: the queue wrapper (\<^verbatim>\<open>CL4CQueue\<close>,
  \<^verbatim>\<open>cl4_cqueue_get_event_iterator\<close>, \<^verbatim>\<open>cl4_cqueue_get_next_event\<close>) is not in the
  source files at hand. A queue yields its events in arrival order.
\<close>

type_synonym CL4CQueue = "CL4Event list"

text \<open>
  A queue name is a \<^verbatim>\<open>const char*\<close>. The table of queues hashes the characters but
  compares keys with \<^verbatim>\<open>g_direct_equal\<close>, so its key is the address; the characters are
  kept beside the queue. The reference count of a queue wrapper (\<^verbatim>\<open>cl4_cqueue_ref\<close>,
  \<^verbatim>\<open>cl4_cqueue_destroy\<close>) is not part of the profile and is not modelled.
\<close>

type_synonym cstring = "nat \<times> string"

record CL4Prof =
  event_names :: "(string, guint) GHashTable option"
  event_name_ids :: "(guint, string) GHashTable option"
  cqueues :: "(nat, string \<times> CL4CQueue) GHashTable option"
  event_instants :: "CL4ProfEventInst list"
  num_events :: guint
  events :: "CL4ProfEvent list"
  aggregate :: "(string, CL4ProfEventAgg) GHashTable option"
  overmat :: "cl_ulong list option"
  total_events_time :: cl_ulong
  total_events_eff_time :: cl_ulong
  start_time :: cl_ulong
  timer :: "GTimer option"

subsection \<open>Comparison functions\<close>

definition cl4_prof_eventinst_comp ::
  "CL4ProfEventInstSort \<Rightarrow> CL4ProfEventInst \<Rightarrow> CL4ProfEventInst \<Rightarrow> int" where
  "cl4_prof_eventinst_comp sort_type ev_inst1 ev_inst2 =
     (case sort_type of
        CL4_PROF_EVENTINST_SORT_INSTANT \<Rightarrow> CL4_PROF_CMP (instant ev_inst1) (instant ev_inst2)
      | CL4_PROF_EVENTINST_SORT_ID \<Rightarrow>
          (if inst_id ev_inst1 > inst_id ev_inst2 then 1
           else if inst_id ev_inst1 < inst_id ev_inst2 then - 1
           else if inst_type ev_inst1 = CL4_PROF_EV_END then 1
           else if inst_type ev_inst1 = CL4_PROF_EV_START then - 1
           else 0))"

definition g_strcmp0 :: "string \<Rightarrow> string \<Rightarrow> int" where
  \<comment> \<open>\<^verbatim>\<open>strcmp\<close> on two non-\<^verbatim>\<open>NULL\<close> strings: byte-wise lexicographic; only the sign is used\<close>
  "g_strcmp0 s1 s2 = (if s1 < s2 then - 1 else if s2 < s1 then 1 else 0)"

definition cl4_prof_eventagg_comp ::
  "CL4ProfEventAggSort \<Rightarrow> CL4ProfEventAgg \<Rightarrow> CL4ProfEventAgg \<Rightarrow> int" where
  "cl4_prof_eventagg_comp sort_type ev_agg1 ev_agg2 =
     (case sort_type of
        CL4_PROF_EVENTAGG_SORT_NAME \<Rightarrow> g_strcmp0 (agg_event_name ev_agg1) (agg_event_name ev_agg2)
      | CL4_PROF_EVENTAGG_SORT_TIME \<Rightarrow>
          CL4_PROF_CMP (absolute_time ev_agg1) (absolute_time ev_agg2))"

definition cl4_prof_event_comp :: "CL4ProfEventSort \<Rightarrow> CL4ProfEvent \<Rightarrow> CL4ProfEvent \<Rightarrow> int" where
  "cl4_prof_event_comp sort_type ev1 ev2 =
     (case sort_type of
        CL4_PROF_EVENT_SORT_NAME_EVENT \<Rightarrow> g_strcmp0 (ev_event_name ev1) (ev_event_name ev2)
      | CL4_PROF_EVENT_SORT_NAME_QUEUE \<Rightarrow> g_strcmp0 (ev_queue_name ev1) (ev_queue_name ev2)
      | CL4_PROF_EVENT_SORT_T_QUEUED \<Rightarrow> CL4_PROF_CMP (t_queued ev1) (t_queued ev2)
      | CL4_PROF_EVENT_SORT_T_SUBMIT \<Rightarrow> CL4_PROF_CMP (t_submit ev1) (t_submit ev2)
      | CL4_PROF_EVENT_SORT_T_START \<Rightarrow> CL4_PROF_CMP (t_start ev1) (t_start ev2)
      | CL4_PROF_EVENT_SORT_T_END \<Rightarrow> CL4_PROF_CMP (t_end ev1) (t_end ev2))"

subsection \<open>Ingest\<close>

definition cl4_prof_new :: CL4Prof where
  \<comment> \<open>\<^verbatim>\<open>g_slice_new0\<close>: every field zero, then the start time set to the maximum\<close>
  "cl4_prof_new =
     \<lparr>event_names = None, event_name_ids = None, cqueues = None, event_instants = [],
      num_events = 0, events = [], aggregate = None, overmat = None,
      total_events_time = 0, total_events_eff_time = 0, start_time = - 1, timer = None\<rparr>"

definition cl4_prof_eventinst_new ::
  "string \<Rightarrow> string \<Rightarrow> guint \<Rightarrow> cl_ulong \<Rightarrow> CL4ProfEventInstType \<Rightarrow> CL4ProfEventInst" where
  "cl4_prof_eventinst_new event_name queue_name eid inst ty =
     \<lparr>inst_event_name = event_name, inst_queue_name = queue_name, inst_id = eid,
      instant = inst, inst_type = ty\<rparr>"

definition cl4_prof_event_new ::
  "string \<Rightarrow> string \<Rightarrow> cl_ulong \<Rightarrow> cl_ulong \<Rightarrow> cl_ulong \<Rightarrow> cl_ulong \<Rightarrow> CL4ProfEvent" where
  "cl4_prof_event_new event_name queue_name tq ts tst te =
     \<lparr>ev_event_name = event_name, ev_queue_name = queue_name, t_queued = tq, t_submit = ts,
      t_start = tst, t_end = te\<rparr>"

text \<open>
  \<^verbatim>\<open>cl4_prof_add_event\<close> writes the profile as it goes and returns at the first query
  that sets \<^verbatim>\<open>*err\<close>. The result is the error (if any) and the profile as it was left.
\<close>

definition cl4_prof_add_event :: "CL4Prof \<Rightarrow> string \<Rightarrow> CL4Event \<Rightarrow> GError option \<times> CL4Prof" where
  "cl4_prof_add_event prof cq_name evt =
     (let event_name = final_name evt;
          prof1 = prof\<lparr>num_events := num_events prof + 1\<rparr>;
          event_id = num_events prof1;
          prof2 = (if \<not> g_hash_table_contains (event_names prof1) event_name
                   then prof1\<lparr>event_names := g_hash_table_insert (event_names prof1) event_name
                                  (g_hash_table_size (event_names prof1))\<rparr>
                   else prof1)
      in case cl4_event_get_profiling_info evt CL_PROFILING_COMMAND_START of
           Inl e \<Rightarrow> (Some e, prof2)
         | Inr inst_s \<Rightarrow>
            (let prof3 = (if inst_s < start_time prof2 then prof2\<lparr>start_time := inst_s\<rparr> else prof2);
                 evinst_start = cl4_prof_eventinst_new event_name cq_name event_id inst_s
                                  CL4_PROF_EV_START;
                 prof4 = prof3\<lparr>event_instants := evinst_start # event_instants prof3\<rparr>
             in case cl4_event_get_profiling_info evt CL_PROFILING_COMMAND_END of
                  Inl e \<Rightarrow> (Some e, prof4)
                | Inr inst_e \<Rightarrow>
                   (let evinst_end = cl4_prof_eventinst_new event_name cq_name event_id inst_e
                                       CL4_PROF_EV_END;
                        prof5 = prof4\<lparr>event_instants := evinst_end # event_instants prof4\<rparr>
                    in case cl4_event_get_profiling_info evt CL_PROFILING_COMMAND_QUEUED of
                         Inl e \<Rightarrow> (Some e, prof5)
                       | Inr inst_q \<Rightarrow>
                          (case cl4_event_get_profiling_info evt CL_PROFILING_COMMAND_SUBMIT of
                             Inl e \<Rightarrow> (Some e, prof5)
                           | Inr inst_aux \<Rightarrow>
                              (None, prof5\<lparr>events :=
                                 cl4_prof_event_new event_name cq_name inst_q inst_aux
                                   (instant evinst_start) (instant evinst_end) # events prof5\<rparr>)))))"

text \<open>The inner loop of \<^verbatim>\<open>cl4_prof_process_queues\<close>: the events of one queue.\<close>

fun process_queue_events :: "CL4Prof \<Rightarrow> string \<Rightarrow> CL4Event list \<Rightarrow> GError option \<times> CL4Prof" where
  "process_queue_events prof cq_name [] = (None, prof)"
| "process_queue_events prof cq_name (evt # rest) =
     (case cl4_prof_add_event prof cq_name evt of
        (Some e, prof') \<Rightarrow> (Some e, prof')
      | (None, prof') \<Rightarrow> process_queue_events prof' cq_name rest)"

text \<open>The outer loop: the queues of the table, in the table's iteration order.\<close>

fun process_queue_table ::
  "CL4Prof \<Rightarrow> (nat \<times> string \<times> CL4CQueue) list \<Rightarrow> GError option \<times> CL4Prof" where
  "process_queue_table prof [] = (None, prof)"
| "process_queue_table prof ((addr, cq_name, cq) # rest) =
     (case process_queue_events prof cq_name cq of
        (Some e, prof') \<Rightarrow> (Some e, prof')
      | (None, prof') \<Rightarrow> process_queue_table prof' rest)"

definition cl4_prof_process_queues :: "CL4Prof \<Rightarrow> fault + (GError option \<times> CL4Prof)" where
  "cl4_prof_process_queues prof =
     (case cqueues prof of
        None \<Rightarrow> Inl UninitializedRead
      | Some qs \<Rightarrow>
         (case process_queue_table prof qs of
            (Some e, prof') \<Rightarrow> Inr (Some e, prof')
          | (None, prof') \<Rightarrow>
             (case event_names prof' of
                None \<Rightarrow> Inl UninitializedRead
              | Some names \<Rightarrow>
                 Inr (None, prof'\<lparr>event_name_ids :=
                        Some (fold (\<lambda>(p_evt_name, p_id) t. AList.update p_id p_evt_name t)
                                names [])\<rparr>))))"


subsection \<open>Aggregate statistics\<close>

definition cl4_prof_eventagg_new :: "string \<Rightarrow> CL4ProfEventAgg" where
  \<comment> \<open>\<^verbatim>\<open>g_slice_new\<close> leaves both times indeterminate; the only caller assigns
      \<^verbatim>\<open>absolute_time\<close> before any read\<close>
  "cl4_prof_eventagg_new event_name =
     \<lparr>agg_event_name = event_name, absolute_time = 0, relative_time = None\<rparr>"

text \<open>
  The loop of \<^verbatim>\<open>cl4_prof_calc_agg\<close> over the sorted instants: it reads two cells per
  round, the second one without a check, and writes through the pointer that the lookup in the
  aggregate table returns.
\<close>

fun calc_agg_loop :: "CL4ProfEventInst list \<Rightarrow> CL4Prof \<Rightarrow> fault + CL4Prof" where
  "calc_agg_loop [] prof = Inr prof"
| "calc_agg_loop [s] prof = Inl NullDeref"
| "calc_agg_loop (s # e # rest) prof =
     (let start_inst = instant s; end_inst = instant e
      in case g_hash_table_lookup (aggregate prof) (inst_event_name e) of
           None \<Rightarrow> Inl NullDeref
         | Some curr_agg \<Rightarrow>
            calc_agg_loop rest
              (prof\<lparr>aggregate :=
                      g_hash_table_insert (aggregate prof) (inst_event_name e)
                        (curr_agg\<lparr>absolute_time := absolute_time curr_agg + (end_inst - start_inst)\<rparr>),
                    total_events_time := total_events_time prof + (end_inst - start_inst)\<rparr>))"

definition cl4_prof_calc_agg :: "CL4Prof \<Rightarrow> fault + CL4Prof" where
  "cl4_prof_calc_agg prof =
     (case event_names prof of
        None \<Rightarrow> Inl UninitializedRead
      | Some names \<Rightarrow>
         (let prof1 = prof\<lparr>aggregate :=
                        fold (\<lambda>(event_name, uid) t.
                                g_hash_table_insert t event_name
                                  ((cl4_prof_eventagg_new event_name)\<lparr>absolute_time := 0\<rparr>))
                          names (aggregate prof)\<rparr>;
              prof2 = prof1\<lparr>event_instants :=
                        g_list_sort_with_data (cl4_prof_eventinst_comp CL4_PROF_EVENTINST_SORT_ID)
                          (event_instants prof1)\<rparr>
          in case calc_agg_loop (event_instants prof2) prof2 of
               Inl f \<Rightarrow> Inl f
             | Inr prof3 \<Rightarrow>
                (case aggregate prof3 of
                   None \<Rightarrow> Inl UninitializedRead
                 | Some aggs \<Rightarrow>
                    Inr (prof3\<lparr>aggregate :=
                           Some (map (\<lambda>(event_name, curr_agg).
                                        (event_name,
                                         curr_agg\<lparr>relative_time :=
                                           Some (ulong_div_double (absolute_time curr_agg)
                                                   (total_events_time prof3))\<rparr>))
                                   aggs)\<rparr>))))"

subsection \<open>Overlap matrix\<close>

record overmat_state =
  overlaps :: "(guint, (guint, cl_ulong) GHashTable) GHashTable"
  occurring_events :: "(guint, guint) GHashTable"
  overlap_matrix :: "cl_ulong list option"
  total_overlap :: cl_ulong

definition eid_key1 :: "guint \<Rightarrow> guint \<Rightarrow> guint" where
  "eid_key1 curr_eid key_eid = (if curr_eid \<le> key_eid then curr_eid else key_eid)"

definition eid_key2 :: "guint \<Rightarrow> guint \<Rightarrow> guint" where
  "eid_key2 curr_eid key_eid = (if curr_eid > key_eid then curr_eid else key_eid)"

text \<open>One round of the inner loop at a start instant: the pair of ids gets the instant.\<close>

definition overmat_start_pair ::
  "CL4ProfEventInst \<Rightarrow> guint \<Rightarrow> (guint, (guint, cl_ulong) GHashTable) GHashTable
     \<Rightarrow> (guint, (guint, cl_ulong) GHashTable) GHashTable" where
  "overmat_start_pair curr_evinst key_eid ovl =
     (let k1 = eid_key1 (inst_id curr_evinst) key_eid;
          k2 = eid_key2 (inst_id curr_evinst) key_eid;
          inner_table = (case map_of ovl k1 of None \<Rightarrow> [] | Some t \<Rightarrow> t)
      in AList.update k1 (AList.update k2 (instant curr_evinst) inner_table) ovl)"

text \<open>
  The inner loop at an end instant, over the events still occurring. A pair without a recorded
  instant makes \<^verbatim>\<open>g_hash_table_lookup\<close> return \<^verbatim>\<open>NULL\<close>, which the source
  dereferences.
\<close>

fun overmat_end_loop ::
  "(string, guint) GHashTable option \<Rightarrow> guint \<Rightarrow> CL4ProfEventInst \<Rightarrow> (guint \<times> guint) list
     \<Rightarrow> overmat_state \<Rightarrow> fault + overmat_state" where
  "overmat_end_loop names num_event_names curr_evinst [] st = Inr st"
| "overmat_end_loop names num_event_names curr_evinst ((key_eid, ueid_occu_ev) # rest) st =
     (let k1 = eid_key1 (inst_id curr_evinst) key_eid;
          k2 = eid_key2 (inst_id curr_evinst) key_eid;
          inner_table = map_of (overlaps st) k1
      in case g_hash_table_lookup inner_table k2 of
           None \<Rightarrow> Inl NullDeref
         | Some pair_start \<Rightarrow>
            (let eff_overlap = instant curr_evinst - pair_start;
                 ueid_curr_ev =
                   GPOINTER_TO_UINT (g_hash_table_lookup names (inst_event_name curr_evinst));
                 ueid_min = (if ueid_curr_ev \<le> ueid_occu_ev then ueid_curr_ev else ueid_occu_ev);
                 ueid_max = (if ueid_curr_ev > ueid_occu_ev then ueid_curr_ev else ueid_occu_ev);
                 idx = unat (ueid_min * num_event_names + ueid_max)
             in case overlap_matrix st of
                  None \<Rightarrow> Inl NullDeref
                | Some m \<Rightarrow>
                   (if idx < length m
                    then overmat_end_loop names num_event_names curr_evinst rest
                           (st\<lparr>overlap_matrix := Some (m[idx := m ! idx + eff_overlap]),
                               total_overlap := total_overlap st + eff_overlap\<rparr>)
                    else Inl OutOfBounds)))"

text \<open>The body of the loop over the instants.\<close>

definition overmat_step ::
  "(string, guint) GHashTable option \<Rightarrow> guint \<Rightarrow> CL4ProfEventInst \<Rightarrow> overmat_state
     \<Rightarrow> fault + overmat_state" where
  "overmat_step names num_event_names curr_evinst st =
     (if inst_type curr_evinst = CL4_PROF_EV_START
      then Inr (st\<lparr>overlaps :=
                     fold (\<lambda>(key_eid, ueid). overmat_start_pair curr_evinst key_eid)
                       (occurring_events st) (overlaps st),
                   occurring_events :=
                     AList.update (inst_id curr_evinst)
                       (GPOINTER_TO_UINT (g_hash_table_lookup names (inst_event_name curr_evinst)))
                       (occurring_events st)\<rparr>)
      else (let st1 = st\<lparr>occurring_events :=
                          g_hash_table_remove (occurring_events st) (inst_id curr_evinst)\<rparr>
            in overmat_end_loop names num_event_names curr_evinst (occurring_events st1) st1))"

fun overmat_loop ::
  "(string, guint) GHashTable option \<Rightarrow> guint \<Rightarrow> CL4ProfEventInst list \<Rightarrow> overmat_state
     \<Rightarrow> fault + overmat_state" where
  "overmat_loop names num_event_names [] st = Inr st"
| "overmat_loop names num_event_names (curr_evinst # rest) st =
     (case overmat_step names num_event_names curr_evinst st of
        Inl f \<Rightarrow> Inl f
      | Inr st' \<Rightarrow> overmat_loop names num_event_names rest st')"

definition g_new0 :: "guint \<Rightarrow> cl_ulong list option" where
  \<comment> \<open>GLib's \<^verbatim>\<open>g_new0\<close> returns \<^verbatim>\<open>NULL\<close> for a count of 0\<close>
  "g_new0 n = (if n = 0 then None else Some (replicate (unat n) 0))"

text \<open>
  The sweep of \<^verbatim>\<open>cl4_prof_calc_overmat\<close>: the state when the loop over the sorted instants
  ends. The count of the allocation and the index into it are computed in \<^verbatim>\<open>guint\<close>.
\<close>

definition overmat_instants :: "CL4Prof \<Rightarrow> CL4ProfEventInst list" where
  "overmat_instants prof =
     g_list_sort_with_data (cl4_prof_eventinst_comp CL4_PROF_EVENTINST_SORT_INSTANT)
       (event_instants prof)"

definition overmat_sweep :: "CL4Prof \<Rightarrow> fault + overmat_state" where
  "overmat_sweep prof =
     (let num_event_names = g_hash_table_size (event_names prof)
      in overmat_loop (event_names prof) num_event_names (overmat_instants prof)
           \<lparr>overlaps = [], occurring_events = [],
            overlap_matrix = g_new0 (num_event_names * num_event_names), total_overlap = 0\<rparr>)"

definition cl4_prof_calc_overmat :: "CL4Prof \<Rightarrow> fault + CL4Prof" where
  "cl4_prof_calc_overmat prof =
     (case overmat_sweep prof of
        Inl f \<Rightarrow> Inl f
      | Inr st \<Rightarrow>
         Inr (prof\<lparr>event_instants := overmat_instants prof,
                   overmat := overlap_matrix st,
                   total_events_eff_time := total_events_time prof - total_overlap st\<rparr>))"

subsection \<open>Public functions\<close>

definition cl4_prof_start :: "nat \<Rightarrow> CL4Prof option \<Rightarrow> CL4Prof option" where
  "cl4_prof_start now prof =
     (case prof of None \<Rightarrow> None | Some p \<Rightarrow> Some (p\<lparr>timer := Some (g_timer_new now)\<rparr>))"

definition cl4_prof_stop :: "nat \<Rightarrow> CL4Prof option \<Rightarrow> glib_critical list \<times> CL4Prof option" where
  "cl4_prof_stop now prof =
     (case prof of
        None \<Rightarrow> ([Critical ''cl4_prof_stop: assertion prof != NULL failed''], None)
      | Some p \<Rightarrow>
         (case g_timer_stop now (timer p) of (crit, t) \<Rightarrow> (crit, Some (p\<lparr>timer := t\<rparr>))))"

definition cl4_prof_time_elapsed :: "nat \<Rightarrow> CL4Prof option \<Rightarrow> glib_critical list \<times> real" where
  "cl4_prof_time_elapsed now prof =
     (case prof of
        None \<Rightarrow> ([Critical ''cl4_prof_time_elapsed: assertion prof != NULL failed''], 0)
      | Some p \<Rightarrow> g_timer_elapsed now (timer p))"

text \<open>
  \<^verbatim>\<open>cl4_prof_add_queue\<close>. The warning that it prints when the name is already in the table
  is not part of the result.
\<close>

definition cl4_prof_add_queue ::
  "CL4Prof option \<Rightarrow> cstring \<Rightarrow> CL4CQueue option \<Rightarrow> CL4Prof option" where
  "cl4_prof_add_queue prof cq_name cq =
     (case prof of
        None \<Rightarrow> None
      | Some p \<Rightarrow>
         (case cq of
            None \<Rightarrow> Some p
          | Some q \<Rightarrow>
             (if aggregate p \<noteq> None then Some p
              else (let p1 = (if cqueues p = None then p\<lparr>cqueues := Some []\<rparr> else p)
                    in Some (p1\<lparr>cqueues :=
                                g_hash_table_replace (cqueues p1) (fst cq_name) (snd cq_name, q)\<rparr>)))))"

text \<open>
  \<^verbatim>\<open>cl4_prof_calc\<close>, called with an error location that is not yet set. The result is
  the returned status, the error left in the location, and the profile.
\<close>

definition cl4_prof_calc ::
  "CL4Prof option \<Rightarrow> fault + (bool \<times> GError option \<times> CL4Prof option)" where
  "cl4_prof_calc prof =
     (case prof of
        None \<Rightarrow> Inr (False, None, None)
      | Some p \<Rightarrow>
         (if aggregate p \<noteq> None then Inr (False, None, Some p)
          else (let p1 = p\<lparr>aggregate := Some [], event_names := Some []\<rparr>
                in case cl4_prof_process_queues p1 of
                     Inl f \<Rightarrow> Inl f
                   | Inr (Some e, p2) \<Rightarrow> Inr (False, Some e, Some p2)
                   | Inr (None, p2) \<Rightarrow>
                      (case cl4_prof_calc_agg p2 of
                         Inl f \<Rightarrow> Inl f
                       | Inr p3 \<Rightarrow>
                          (case cl4_prof_calc_overmat p3 of
                             Inl f \<Rightarrow> Inl f
                           | Inr p4 \<Rightarrow> Inr (True, None, Some p4))))))"

definition cl4_prof_get_eventagg :: "CL4Prof option \<Rightarrow> string \<Rightarrow> CL4ProfEventAgg option" where
  "cl4_prof_get_eventagg prof event_name =
     (case prof of
        None \<Rightarrow> None
      | Some p \<Rightarrow> (if aggregate p = None then None
                   else g_hash_table_lookup (aggregate p) event_name))"


subsection \<open>Report\<close>

text \<open>
  What \<^verbatim>\<open>cl4_prof_print_info\<close> hands to \<^verbatim>\<open>g_print\<close>, one item per call, with the
  numbers as they are before formatting. A name that is \<^verbatim>\<open>NULL\<close> is \<open>None\<close>.
\<close>

datatype report_item =
    ReportBanner
  | ReportElapsed real
  | ReportTotalEvents cl_ulong
  | ReportAggTitle
  | ReportRule
  | ReportAggColumns
  | ReportAggRow string "gdouble option" cl_ulong
  | ReportEffTotal cl_ulong
  | ReportSaved cl_ulong
  | ReportOverlapTitle
  | ReportOverlapColumns
  | ReportOverlapRow "string option" "string option" cl_ulong

text \<open>The two nested loops over the matrix, row by row; the index is computed in \<^verbatim>\<open>guint\<close>.\<close>

fun overlap_rows :: "CL4Prof \<Rightarrow> guint \<Rightarrow> (nat \<times> nat) list \<Rightarrow> fault + report_item list" where
  "overlap_rows prof num_event_names [] = Inr []"
| "overlap_rows prof num_event_names ((i, j) # rest) =
     (case overmat prof of
        None \<Rightarrow> Inl NullDeref
      | Some m \<Rightarrow>
         (let idx = unat (of_nat i * num_event_names + of_nat j :: guint)
          in if idx < length m
             then (case overlap_rows prof num_event_names rest of
                     Inl f \<Rightarrow> Inl f
                   | Inr rows \<Rightarrow>
                      Inr ((if m ! idx > 0
                            then [ReportOverlapRow
                                    (g_hash_table_lookup (event_name_ids prof) (of_nat i))
                                    (g_hash_table_lookup (event_name_ids prof) (of_nat j))
                                    (m ! idx)]
                            else []) @ rows))
             else Inl OutOfBounds))"

definition cl4_prof_print_info ::
  "nat \<Rightarrow> CL4Prof option \<Rightarrow> CL4ProfEventAggSort \<Rightarrow> fault + report_item list" where
  "cl4_prof_print_info now prof ev_aggSortType =
     (case prof of
        None \<Rightarrow> Inr []
      | Some p \<Rightarrow>
         (let head =
                [ReportBanner]
                @ (if timer p \<noteq> None then [ReportElapsed (snd (g_timer_elapsed now (timer p)))]
                   else [])
                @ (if total_events_time p > 0 then [ReportTotalEvents (total_events_time p)]
                   else [])
                @ (if g_hash_table_size (aggregate p) > 0
                   then [ReportAggTitle, ReportRule, ReportAggColumns, ReportRule]
                        @ map (\<lambda>ev_agg. ReportAggRow (agg_event_name ev_agg)
                                           (relative_time ev_agg) (absolute_time ev_agg))
                            (g_list_sort_with_data (cl4_prof_eventagg_comp ev_aggSortType)
                               (map snd (case aggregate p of None \<Rightarrow> [] | Some aggs \<Rightarrow> aggs)))
                        @ [ReportRule]
                   else []);
              num_event_names = g_hash_table_size (event_names p)
          in case overlap_rows p num_event_names
                    (List.product [0 ..< unat num_event_names] [0 ..< unat num_event_names]) of
               Inl f \<Rightarrow> Inl f
             | Inr rows \<Rightarrow>
                Inr (head
                     @ (if rows \<noteq> []
                        then [ReportEffTotal (total_events_eff_time p),
                              ReportSaved (total_events_time p - total_events_eff_time p),
                              ReportOverlapTitle, ReportRule, ReportOverlapColumns, ReportRule]
                             @ rows @ [ReportRule]
                        else []))))"

subsection \<open>Export\<close>

record CL4ProfExportOptions =
  separator :: string
  newline :: string
  queue_delim :: string
  evname_delim :: string
  zero_start :: bool

definition export_options :: CL4ProfExportOptions where
  \<comment> \<open>the initial value of the global \<^verbatim>\<open>export_options\<close>\<close>
  "export_options =
     \<lparr>separator = [CHR 0x09], newline = [CHR 0x0A], queue_delim = '''', evname_delim = '''',
      zero_start = True\<rparr>"

text \<open>\<^verbatim>\<open>%lu\<close>: an \<^verbatim>\<open>unsigned long\<close> (64 bits, as \<^verbatim>\<open>cl_ulong\<close>) in decimal.\<close>

function ulong_to_string :: "nat \<Rightarrow> string" where
  "ulong_to_string n =
     (if n < 10 then [''0123456789'' ! n]
      else ulong_to_string (n div 10) @ [''0123456789'' ! (n mod 10)])"
  by pat_completeness auto
termination
  by (relation "measure (\<lambda>n. n)") auto

text \<open>
  An output stream: what was written, and how many more \<^verbatim>\<open>fprintf\<close> calls succeed
  (\<open>None\<close>: all of them). A failing \<^verbatim>\<open>fprintf\<close> returns a negative value.
\<close>

record STREAM =
  written :: string
  writes_left :: "nat option"

definition fprintf :: "STREAM \<Rightarrow> string \<Rightarrow> int \<times> STREAM" where
  "fprintf stream s =
     (case writes_left stream of
        Some 0 \<Rightarrow> (- 1, stream)
      | Some (Suc k) \<Rightarrow> (int (length s), \<lparr>written = written stream @ s, writes_left = Some k\<rparr>)
      | None \<Rightarrow> (int (length s), \<lparr>written = written stream @ s, writes_left = None\<rparr>))"

definition export_line :: "CL4ProfExportOptions \<Rightarrow> CL4ProfEvent \<Rightarrow> string" where
  \<comment> \<open>the text of the \<^verbatim>\<open>fprintf\<close> call of \<^verbatim>\<open>cl4_prof_export_info\<close>\<close>
  "export_line opts curr_ev =
     queue_delim opts @ ev_queue_name curr_ev @ queue_delim opts @ separator opts
     @ ulong_to_string (unat (t_start curr_ev)) @ separator opts
     @ ulong_to_string (unat (t_end curr_ev)) @ separator opts
     @ evname_delim opts @ ev_event_name curr_ev @ evname_delim opts @ newline opts"

fun export_loop ::
  "CL4ProfExportOptions \<Rightarrow> CL4ProfEvent list \<Rightarrow> STREAM \<Rightarrow> GError option \<times> STREAM" where
  "export_loop opts [] stream = (None, stream)"
| "export_loop opts (curr_ev # rest) stream =
     (case fprintf stream (export_line opts curr_ev) of
        (write_status, stream') \<Rightarrow>
          (if write_status < 0
           then (Some (GError CL4_ERROR_STREAM_WRITE
                   ''Error while exporting profiling information (writing to stream).''), stream')
           else export_loop opts rest stream'))"

text \<open>
  \<^verbatim>\<open>cl4_prof_export_info\<close>, with the global options as an argument and an error
  location that is not yet set. The result is the returned status, the error left in the
  location, the profile (whose event list the function sorts), and the stream.
\<close>

definition cl4_prof_export_info ::
  "CL4ProfExportOptions \<Rightarrow> CL4Prof option \<Rightarrow> STREAM option
     \<Rightarrow> bool \<times> GError option \<times> CL4Prof option \<times> STREAM option" where
  "cl4_prof_export_info opts prof stream =
     (case prof of
        None \<Rightarrow> (False, None, None, stream)
      | Some p \<Rightarrow>
         (case stream of
            None \<Rightarrow> (False, None, Some p, None)
          | Some st \<Rightarrow>
             (let p1 = p\<lparr>events :=
                         g_list_sort_with_data (cl4_prof_event_comp CL4_PROF_EVENT_SORT_T_START)
                           (events p)\<rparr>
              in case export_loop opts (events p1) st of
                   (None, st') \<Rightarrow> (True, None, Some p1, Some st')
                 | (Some e, st') \<Rightarrow> (False, Some e, Some p1, Some st'))))"


subsection \<open>Client programs and scenarios\<close>

text \<open>The profile that a call of \<^verbatim>\<open>cl4_prof_calc\<close> returning \<^verbatim>\<open>CL_TRUE\<close> leaves.\<close>

definition calc_profile ::
  "fault + (bool \<times> GError option \<times> CL4Prof option) \<Rightarrow> CL4Prof option" where
  "calc_profile r = (case r of Inl f \<Rightarrow> None | Inr (status, err, p) \<Rightarrow> (if status then p else None))"

text \<open>
  A client's calls on one profile handle, and the handle's target after them. A call that ends
  in undefined behaviour ends the program.
\<close>

datatype call =
    Start nat
  | Stop nat
  | Elapsed nat
  | AddQueue cstring "CL4CQueue option"
  | Calc
  | PrintInfo nat CL4ProfEventAggSort
  | ExportInfo CL4ProfExportOptions "STREAM option"

fun apply_call :: "call \<Rightarrow> CL4Prof option \<Rightarrow> fault + CL4Prof option" where
  "apply_call (Start now) prof = Inr (cl4_prof_start now prof)"
| "apply_call (Stop now) prof = Inr (snd (cl4_prof_stop now prof))"
| "apply_call (Elapsed now) prof = Inr prof"
| "apply_call (AddQueue cq_name cq) prof = Inr (cl4_prof_add_queue prof cq_name cq)"
| "apply_call Calc prof =
     (case cl4_prof_calc prof of Inl f \<Rightarrow> Inl f | Inr (status, err, prof') \<Rightarrow> Inr prof')"
| "apply_call (PrintInfo now ev_aggSortType) prof =
     (case cl4_prof_print_info now prof ev_aggSortType of Inl f \<Rightarrow> Inl f | Inr out \<Rightarrow> Inr prof)"
| "apply_call (ExportInfo opts stream) prof =
     (case cl4_prof_export_info opts prof stream of (status, err, prof', stream') \<Rightarrow> Inr prof')"

fun apply_calls :: "call list \<Rightarrow> CL4Prof option \<Rightarrow> fault + CL4Prof option" where
  "apply_calls [] prof = Inr prof"
| "apply_calls (c # cs) prof =
     (case apply_call c prof of Inl f \<Rightarrow> Inl f | Inr prof' \<Rightarrow> apply_calls cs prof')"

fun is_Start :: "call \<Rightarrow> bool" where
  "is_Start (Start now) = True"
| "is_Start c = False"

text \<open>The sum of the absolute times of a table of aggregates, in \<^verbatim>\<open>cl_ulong\<close>.\<close>

definition sum_absolute_time :: "(string, CL4ProfEventAgg) GHashTable \<Rightarrow> cl_ulong" where
  "sum_absolute_time aggs = sum_list (map (\<lambda>(event_name, agg). absolute_time agg) aggs)"

text \<open>An event whose four queries succeed; it is queued and submitted when it starts.\<close>

definition completed_event :: "string \<Rightarrow> cl_ulong \<Rightarrow> cl_ulong \<Rightarrow> CL4Event" where
  "completed_event name tstart tend =
     \<lparr>final_name = name, info_queued = Inr tstart, info_submit = Inr tstart,
      info_start = Inr tstart, info_end = Inr tend\<rparr>"

text \<open>A fresh profile with one registered queue, named \<^verbatim>\<open>q0\<close>.\<close>

definition profile_of_queue :: "CL4Event list \<Rightarrow> CL4Prof option" where
  "profile_of_queue evs = cl4_prof_add_queue (Some cl4_prof_new) (1, ''q0'') (Some evs)"

definition scenario_S1 :: "CL4Prof option" where
  "scenario_S1 = profile_of_queue [completed_event ''k'' 100 200]"

definition scenario_S2 :: "CL4Prof option" where
  "scenario_S2 = profile_of_queue [completed_event ''k'' 100 200, completed_event ''k'' 300 500]"

definition scenario_S3 :: "CL4Prof option" where
  "scenario_S3 = profile_of_queue [completed_event ''a'' 100 300, completed_event ''b'' 200 400]"

definition scenario_S6 :: "CL4Prof option" where
  \<comment> \<open>start time 1000, a single event from 1100 to 1200 on \<^verbatim>\<open>q0\<close> named \<^verbatim>\<open>k\<close>\<close>
  "scenario_S6 =
     Some (cl4_prof_new\<lparr>start_time := 1000,
             events := [cl4_prof_event_new ''k'' ''q0'' 1100 1100 1100 1200]\<rparr>)"

definition scenario_single :: "CL4Prof option" where
  "scenario_single = profile_of_queue [completed_event ''k'' 1100 1200]"


definition scenario_zero_length :: "CL4Prof option" where
  "scenario_zero_length = profile_of_queue [completed_event ''a'' 100 100]"

definition info_error :: GError where
  "info_error = GError (CL4_ERROR_WRAPPER 1) ''profiling info unavailable''"

definition event_end_fails :: CL4Event where
  "event_end_fails =
     \<lparr>final_name = ''k'', info_queued = Inr 90, info_submit = Inr 95, info_start = Inr 100,
      info_end = Inl info_error\<rparr>"

definition scenario_end_fails :: "CL4Prof option" where
  "scenario_end_fails = profile_of_queue [event_end_fails]"

definition ingest_profile :: CL4Prof where
  \<comment> \<open>the profile as \<^verbatim>\<open>cl4_prof_calc\<close> hands it to the ingest pass, before the first event\<close>
  "ingest_profile = cl4_prof_new\<lparr>aggregate := Some [], event_names := Some []\<rparr>"

definition empty_stream :: STREAM where
  "empty_stream = \<lparr>written = [], writes_left = None\<rparr>"

subsection \<open>Predicates used in the properties\<close>

text \<open>
  The data model of the events: an event does not end before it starts. The events of a table
  of queues, in the order of the ingest pass.
\<close>

definition start_before_end :: "CL4Event \<Rightarrow> bool" where
  "start_before_end evt =
     (case info_start evt of
        Inl e \<Rightarrow> True
      | Inr ts \<Rightarrow> (case info_end evt of Inl e \<Rightarrow> True | Inr te \<Rightarrow> ts \<le> te))"

definition queued_events :: "(nat \<times> string \<times> CL4CQueue) list \<Rightarrow> CL4Event list" where
  "queued_events qs = concat (map (\<lambda>(addr, cq_name, cq). cq) qs)"

text \<open>
  The local variable \<^verbatim>\<open>total_overlap\<close> of \<^verbatim>\<open>cl4_prof_calc_overmat\<close> at the end of the
  call that \<^verbatim>\<open>cl4_prof_calc\<close> makes: the same three stages, stopped after the sweep.
\<close>

definition calc_total_overlap :: "CL4Prof option \<Rightarrow> cl_ulong option" where
  "calc_total_overlap prof =
     (case prof of
        None \<Rightarrow> None
      | Some p \<Rightarrow>
         (case cl4_prof_process_queues (p\<lparr>aggregate := Some [], event_names := Some []\<rparr>) of
            Inl f \<Rightarrow> None
          | Inr (Some e, p2) \<Rightarrow> None
          | Inr (None, p2) \<Rightarrow>
             (case cl4_prof_calc_agg p2 of
                Inl f \<Rightarrow> None
              | Inr p3 \<Rightarrow>
                 (case overmat_sweep p3 of
                    Inl f \<Rightarrow> None
                  | Inr st \<Rightarrow> Some (total_overlap st)))))"

text \<open>
  A set of instants is paired when a start instant is never later than an end instant of the
  same event id. Ids are below the counter when no instant has an id above the number of
  events.
\<close>

definition paired :: "CL4ProfEventInst set \<Rightarrow> bool" where
  "paired S = (\<forall>x \<in> S. \<forall>y \<in> S.
      inst_id x = inst_id y \<and> inst_type x = CL4_PROF_EV_START \<and> inst_type y = CL4_PROF_EV_END
      \<longrightarrow> instant x \<le> instant y)"

definition ids_below :: "CL4Prof \<Rightarrow> bool" where
  "ids_below prof = (\<forall>x \<in> set (event_instants prof). unat (inst_id x) \<le> unat (num_events prof))"

text \<open>Descending order of the instants, which is the order of the sweep.\<close>

abbreviation later_first :: "CL4ProfEventInst \<Rightarrow> CL4ProfEventInst \<Rightarrow> bool" where
  "later_first a b \<equiv> instant b \<le> instant a"

text \<open>
  The invariant of the sweep, for the instants \<open>pre\<close> already taken: each occurring event
  has its start instant in \<open>pre\<close>; each instant recorded for a pair of ids is the start
  instant of one of the two, not later than the start instant of the other; no overlap has been
  added.
\<close>

definition pair_start ::
  "(guint, (guint, cl_ulong) GHashTable) GHashTable \<Rightarrow> guint \<Rightarrow> guint \<Rightarrow> cl_ulong option" where
  "pair_start ovl k1 k2 = g_hash_table_lookup (map_of ovl k1) k2"

definition pair_origin :: "CL4ProfEventInst list \<Rightarrow> guint \<Rightarrow> guint \<Rightarrow> cl_ulong \<Rightarrow> bool" where
  "pair_origin pre k1 k2 s =
     (\<exists>x \<in> set pre. \<exists>y \<in> set pre.
        inst_type x = CL4_PROF_EV_START \<and> inst_type y = CL4_PROF_EV_START
        \<and> {inst_id x, inst_id y} = {k1, k2} \<and> instant x = s \<and> s \<le> instant y)"

definition started :: "CL4ProfEventInst list \<Rightarrow> guint \<Rightarrow> bool" where
  "started pre f = (\<exists>x \<in> set pre. inst_id x = f \<and> inst_type x = CL4_PROF_EV_START)"

definition sweep_inv :: "CL4ProfEventInst list \<Rightarrow> overmat_state \<Rightarrow> bool" where
  "sweep_inv pre st =
     ((\<forall>f \<in> fst ` set (occurring_events st). started pre f)
      \<and> (\<forall>k1 k2 s. pair_start (overlaps st) k1 k2 = Some s \<longrightarrow> pair_origin pre k1 k2 s)
      \<and> total_overlap st = 0)"

section \<open>Properties\<close>

subsection \<open>What each stage leaves alone\<close>

lemma add_event_frame:
  assumes "cl4_prof_add_event prof cq_name evt = (r, prof')"
  shows "timer prof' = timer prof \<and> aggregate prof' = aggregate prof
    \<and> total_events_time prof' = total_events_time prof \<and> cqueues prof' = cqueues prof
    \<and> overmat prof' = overmat prof \<and> total_events_eff_time prof' = total_events_eff_time prof"
  using assms
  by (auto simp: cl4_prof_add_event_def Let_def split: sum.splits if_splits)

lemma process_queue_events_frame:
  "process_queue_events prof cq_name evs = (r, prof') \<Longrightarrow>
   timer prof' = timer prof \<and> aggregate prof' = aggregate prof
    \<and> total_events_time prof' = total_events_time prof \<and> cqueues prof' = cqueues prof
    \<and> overmat prof' = overmat prof \<and> total_events_eff_time prof' = total_events_eff_time prof"
proof (induction evs arbitrary: prof)
  case Nil
  then show ?case by simp
next
  case (Cons evt rest)
  obtain r1 p1 where a: "cl4_prof_add_event prof cq_name evt = (r1, p1)"
    by (cases "cl4_prof_add_event prof cq_name evt")
  note f = add_event_frame [OF a]
  show ?case
  proof (cases r1)
    case None
    with Cons.prems a have "process_queue_events p1 cq_name rest = (r, prof')" by simp
    from Cons.IH [OF this] f show ?thesis by simp
  next
    case (Some e)
    with Cons.prems a have "prof' = p1" by simp
    with f show ?thesis by simp
  qed
qed

lemma process_queue_table_frame:
  "process_queue_table prof qs = (r, prof') \<Longrightarrow>
   timer prof' = timer prof \<and> aggregate prof' = aggregate prof
    \<and> total_events_time prof' = total_events_time prof \<and> cqueues prof' = cqueues prof
    \<and> overmat prof' = overmat prof \<and> total_events_eff_time prof' = total_events_eff_time prof"
proof (induction qs arbitrary: prof)
  case Nil
  then show ?case by simp
next
  case (Cons q rest)
  obtain addr cq_name cq where q: "q = (addr, cq_name, cq)" by (cases q)
  obtain r1 p1 where a: "process_queue_events prof cq_name cq = (r1, p1)"
    by (cases "process_queue_events prof cq_name cq")
  note f = process_queue_events_frame [OF a]
  show ?case
  proof (cases r1)
    case None
    with Cons.prems a q have "process_queue_table p1 rest = (r, prof')" by simp
    from Cons.IH [OF this] f show ?thesis by simp
  next
    case (Some e)
    with Cons.prems a q have "prof' = p1" by simp
    with f show ?thesis by simp
  qed
qed

lemma process_queues_frame:
  assumes "cl4_prof_process_queues prof = Inr (r, prof')"
  shows "timer prof' = timer prof \<and> aggregate prof' = aggregate prof
    \<and> total_events_time prof' = total_events_time prof \<and> cqueues prof' = cqueues prof
    \<and> overmat prof' = overmat prof \<and> total_events_eff_time prof' = total_events_eff_time prof"
proof -
  from assms obtain qs where qs: "cqueues prof = Some qs"
    by (auto simp: cl4_prof_process_queues_def split: option.splits)
  obtain r1 p1 where a: "process_queue_table prof qs = (r1, p1)"
    by (cases "process_queue_table prof qs")
  note f = process_queue_table_frame [OF a]
  from assms qs a f show ?thesis
    by (auto simp: cl4_prof_process_queues_def split: option.splits)
qed

lemma calc_agg_loop_frame:
  "calc_agg_loop insts prof = Inr prof' \<Longrightarrow>
   timer prof' = timer prof \<and> cqueues prof' = cqueues prof \<and> overmat prof' = overmat prof
   \<and> event_names prof' = event_names prof \<and> event_instants prof' = event_instants prof
   \<and> total_events_eff_time prof' = total_events_eff_time prof"
proof (induction insts prof rule: calc_agg_loop.induct)
  case (1 prof)
  then show ?case by simp
next
  case (2 s prof)
  then show ?case by simp
next
  case (3 s e rest prof)
  from "3.prems" obtain curr_agg where
    l: "g_hash_table_lookup (aggregate prof) (inst_event_name e) = Some curr_agg"
    by (auto simp: Let_def split: option.splits)
  from "3.prems" l "3.IH" [OF refl refl l] show ?case
    by (simp add: Let_def)
qed

lemma calc_agg_frame:
  assumes "cl4_prof_calc_agg prof = Inr prof'"
  shows "timer prof' = timer prof \<and> cqueues prof' = cqueues prof \<and> overmat prof' = overmat prof
   \<and> event_names prof' = event_names prof \<and> total_events_eff_time prof' = total_events_eff_time prof"
  using assms
  by (auto simp: cl4_prof_calc_agg_def Let_def split: option.splits sum.splits
      dest!: calc_agg_loop_frame)

lemma calc_overmat_frame:
  assumes "cl4_prof_calc_overmat prof = Inr prof'"
  shows "timer prof' = timer prof \<and> cqueues prof' = cqueues prof \<and> aggregate prof' = aggregate prof
   \<and> event_names prof' = event_names prof \<and> total_events_time prof' = total_events_time prof"
  using assms
  by (auto simp: cl4_prof_calc_overmat_def split: sum.splits)

lemma calc_success:
  assumes "calc_profile (cl4_prof_calc prof) = Some p'"
  shows "\<exists>p p2 p3. prof = Some p \<and> aggregate p = None
     \<and> cl4_prof_process_queues (p\<lparr>aggregate := Some [], event_names := Some []\<rparr>) = Inr (None, p2)
     \<and> cl4_prof_calc_agg p2 = Inr p3 \<and> cl4_prof_calc_overmat p3 = Inr p'
     \<and> cl4_prof_calc prof = Inr (True, None, Some p')"
  using assms
  by (auto simp: calc_profile_def cl4_prof_calc_def Let_def
      split: option.splits sum.splits if_splits prod.splits)

lemma calc_timer:
  assumes "cl4_prof_calc (Some p) = Inr (status, err, prof')"
  shows "\<exists>p'. prof' = Some p' \<and> timer p' = timer p"
  using assms
  by (auto simp: cl4_prof_calc_def Let_def
      split: option.splits sum.splits if_splits prod.splits
      dest!: process_queues_frame calc_agg_frame calc_overmat_frame)

subsection \<open>The merge sort\<close>

lemma set_g_list_sort_merge: "set (g_list_sort_merge cmp l1 l2) = set l1 \<union> set l2"
  by (induction cmp l1 l2 rule: g_list_sort_merge.induct) auto

lemma set_g_list_sort_with_data: "set (g_list_sort_with_data cmp l) = set l"
proof (induction cmp l rule: g_list_sort_with_data.induct)
  case (1 cmp)
  then show ?case by simp
next
  case (2 cmp x)
  then show ?case by simp
next
  case (3 cmp x y zs)
  let ?l = "x # y # zs"
  have "set (take (length ?l div 2) ?l) \<union> set (drop (length ?l div 2) ?l) = set ?l"
    by (metis append_take_drop_id set_append)
  with 3 show ?case
    by (simp only: g_list_sort_with_data.simps set_g_list_sort_merge)
qed

lemma length_g_list_sort_merge:
  "length (g_list_sort_merge cmp l1 l2) = length l1 + length l2"
  by (induction cmp l1 l2 rule: g_list_sort_merge.induct) auto

lemma length_g_list_sort_with_data: "length (g_list_sort_with_data cmp l) = length l"
proof (induction cmp l rule: g_list_sort_with_data.induct)
  case (1 cmp)
  then show ?case by simp
next
  case (2 cmp x)
  then show ?case by simp
next
  case (3 cmp x y zs)
  then show ?case
    by (simp only: g_list_sort_with_data.simps length_g_list_sort_merge length_take length_drop)
      simp
qed

lemma sorted_wrt_g_list_sort_merge:
  "\<forall>a b. (cmp a b \<le> 0) = R a b \<Longrightarrow> \<forall>a b. R a b \<or> R b a \<Longrightarrow>
   \<forall>a b c. R a b \<longrightarrow> R b c \<longrightarrow> R a c \<Longrightarrow>
   sorted_wrt R l1 \<Longrightarrow> sorted_wrt R l2 \<Longrightarrow> sorted_wrt R (g_list_sort_merge cmp l1 l2)"
proof (induction cmp l1 l2 rule: g_list_sort_merge.induct)
  case (1 cmp l2)
  then show ?case by simp
next
  case (2 cmp v va)
  then show ?case by simp
next
  case (3 cmp x l1 y l2)
  note c = "3.prems"(1) and tot = "3.prems"(2) and tr = "3.prems"(3)
  from "3.prems" have s1: "sorted_wrt R l1" "\<forall>z \<in> set l1. R x z"
    and s2: "sorted_wrt R l2" "\<forall>z \<in> set l2. R y z" by simp_all
  show ?case
  proof (cases "R x y")
    case True
    with c have le: "cmp x y \<le> 0" by simp
    from "3.IH"(1) [OF le c tot tr s1(1)] "3.prems"(5)
    have "sorted_wrt R (g_list_sort_merge cmp l1 (y # l2))" by simp
    moreover from True s1 s2 tr have "\<forall>z \<in> set l1 \<union> set (y # l2). R x z" by auto
    ultimately show ?thesis using le by (simp add: set_g_list_sort_merge)
  next
    case False
    with c have le: "\<not> cmp x y \<le> 0" by simp
    from False tot have yx: "R y x" by blast
    from "3.IH"(2) [OF le c tot tr "3.prems"(4) s2(1)]
    have "sorted_wrt R (g_list_sort_merge cmp (x # l1) l2)" .
    moreover from yx s1 s2 tr have "\<forall>z \<in> set (x # l1) \<union> set l2. R y z" by auto
    ultimately show ?thesis using le by (simp add: set_g_list_sort_merge)
  qed
qed

lemma sorted_wrt_g_list_sort_with_data:
  "\<forall>a b. (cmp a b \<le> 0) = R a b \<Longrightarrow> \<forall>a b. R a b \<or> R b a \<Longrightarrow>
   \<forall>a b c. R a b \<longrightarrow> R b c \<longrightarrow> R a c \<Longrightarrow>
   sorted_wrt R (g_list_sort_with_data cmp l)"
proof (induction cmp l rule: g_list_sort_with_data.induct)
  case (1 cmp)
  then show ?case by simp
next
  case (2 cmp x)
  then show ?case by simp
next
  case (3 cmp x y zs)
  from sorted_wrt_g_list_sort_merge [OF "3.prems" "3.IH"(1) [OF "3.prems"] "3.IH"(2) [OF "3.prems"]]
  show ?case by (simp only: g_list_sort_with_data.simps)
qed

text \<open>
  With \<open>CL4_PROF_CMP\<close> the comparison is not positive exactly when the first instant is the
  later one: both sorts that use it give descending lists.
\<close>

lemma instant_comp_le:
  "cl4_prof_eventinst_comp CL4_PROF_EVENTINST_SORT_INSTANT a b \<le> 0 \<longleftrightarrow> instant b \<le> instant a"
  by (auto simp: cl4_prof_eventinst_comp_def CL4_PROF_CMP_def)

lemma sorted_instants:
  "sorted_wrt later_first
     (g_list_sort_with_data (cl4_prof_eventinst_comp CL4_PROF_EVENTINST_SORT_INSTANT) l)"
  by (rule sorted_wrt_g_list_sort_with_data) (auto simp: instant_comp_le)

lemma sorted_events:
  "sorted_wrt (\<lambda>ev1 ev2. t_start ev2 \<le> t_start ev1)
     (g_list_sort_with_data (cl4_prof_event_comp CL4_PROF_EVENT_SORT_T_START) l)"
  by (rule sorted_wrt_g_list_sort_with_data)
    (auto simp: cl4_prof_event_comp_def CL4_PROF_CMP_def)

subsection \<open>The sweep over the instants\<close>

text \<open>
  C1. After a successful calculate the entry of the overlap matrix for two names is the sum of
  the overlaps of the events of these names, and the sweep takes the instants in ascending
  order. The code does neither. \<open>CL4_PROF_CMP\<close> returns 1 where its first argument is the
  smaller one, against the contract written above \<^verbatim>\<open>cl4_prof_eventinst_comp\<close>
  (negative if a < b), so the sort is descending. In scenario S3, where \<^verbatim>\<open>a\<close> runs from 100
  to 300 and \<^verbatim>\<open>b\<close> from 200 to 400 and the entry for the two names should be 100, the sweep
  takes the instants 400, 300, 200, 100 and leaves the matrix at zero.
\<close>

theorem C1_sweep_descending_matrix_zero:
  "map_option overmat (calc_profile (cl4_prof_calc scenario_S3)) = Some (Some [0, 0, 0, 0])
   \<and> map_option (map instant \<circ> event_instants) (calc_profile (cl4_prof_calc scenario_S3))
       = Some [400, 300, 200, 100]"
  by code_simp

text \<open>
  In scenario S2, two events one after the other, the end of the earlier event is met while the
  later one is in the table of occurring events and no instant is recorded for the pair: the
  sweep reads through \<^verbatim>\<open>NULL\<close>.
\<close>

lemma sweep_faults_on_S2: "cl4_prof_calc scenario_S2 = Inl NullDeref"
  by code_simp

text \<open>The ingest pass gives paired instants, when the event ids do not wrap around.\<close>

lemma add_event_paired:
  assumes a: "cl4_prof_add_event prof cq_name evt = (None, prof')"
    and w: "start_before_end evt"
    and b: "unat (num_events prof) + 1 < 2 ^ 32"
    and i: "ids_below prof"
    and p: "paired (set (event_instants prof))"
  shows "unat (num_events prof') = unat (num_events prof) + 1 \<and> ids_below prof'
    \<and> paired (set (event_instants prof'))"
proof -
  from a obtain ts te where s: "info_start evt = Inr ts" and e: "info_end evt = Inr te"
    by (auto simp: cl4_prof_add_event_def Let_def split: sum.splits)
  from w s e have le: "ts \<le> te" by (simp add: start_before_end_def)
  let ?id = "num_events prof + 1"
  from b have u: "unat ?id = unat (num_events prof) + 1"
    by (simp add: unat_word_ariths)
  from a s e have n: "num_events prof' = ?id"
    and l: "event_instants prof' =
              cl4_prof_eventinst_new (final_name evt) cq_name ?id te CL4_PROF_EV_END
              # cl4_prof_eventinst_new (final_name evt) cq_name ?id ts CL4_PROF_EV_START
              # event_instants prof"
    by (auto simp: cl4_prof_add_event_def Let_def split: sum.splits if_splits)
  from i u have old: "?id \<notin> inst_id ` set (event_instants prof)"
    by (auto simp: ids_below_def)
  have "ids_below prof'"
    using i u by (auto simp: ids_below_def n l cl4_prof_eventinst_new_def)
  moreover have "paired (set (event_instants prof'))"
    using p le old unfolding paired_def l
    by (auto simp: cl4_prof_eventinst_new_def image_iff)
  ultimately show ?thesis using n u by simp
qed

lemma process_queue_events_paired:
  "process_queue_events prof cq_name evs = (None, prof') \<Longrightarrow>
   \<forall>evt \<in> set evs. start_before_end evt \<Longrightarrow>
   unat (num_events prof) + length evs < 2 ^ 32 \<Longrightarrow>
   ids_below prof \<Longrightarrow> paired (set (event_instants prof)) \<Longrightarrow>
   unat (num_events prof') = unat (num_events prof) + length evs \<and> ids_below prof'
     \<and> paired (set (event_instants prof'))"
proof (induction evs arbitrary: prof)
  case Nil
  then show ?case by simp
next
  case (Cons evt rest)
  from Cons.prems(1) obtain p1 where a: "cl4_prof_add_event prof cq_name evt = (None, p1)"
    and r: "process_queue_events p1 cq_name rest = (None, prof')"
    by (auto split: prod.splits option.splits)
  from Cons.prems have "start_before_end evt" "unat (num_events prof) + 1 < 2 ^ 32" by auto
  from add_event_paired [OF a this Cons.prems(4,5)]
  have n1: "unat (num_events p1) = unat (num_events prof) + 1" and i1: "ids_below p1"
    and p1: "paired (set (event_instants p1))" by auto
  from Cons.prems n1 have "\<forall>evt \<in> set rest. start_before_end evt"
    "unat (num_events p1) + length rest < 2 ^ 32" by auto
  from Cons.IH [OF r this i1 p1] n1 show ?case by simp
qed

lemma process_queue_table_paired:
  "process_queue_table prof qs = (None, prof') \<Longrightarrow>
   \<forall>evt \<in> set (queued_events qs). start_before_end evt \<Longrightarrow>
   unat (num_events prof) + length (queued_events qs) < 2 ^ 32 \<Longrightarrow>
   ids_below prof \<Longrightarrow> paired (set (event_instants prof)) \<Longrightarrow>
   unat (num_events prof') = unat (num_events prof) + length (queued_events qs) \<and> ids_below prof'
     \<and> paired (set (event_instants prof'))"
proof (induction qs arbitrary: prof)
  case Nil
  then show ?case by (simp add: queued_events_def)
next
  case (Cons q rest)
  obtain addr cq_name cq where q: "q = (addr, cq_name, cq)" by (cases q)
  have qe: "queued_events (q # rest) = cq @ queued_events rest"
    by (simp add: queued_events_def q)
  from Cons.prems(1) q obtain p1 where a: "process_queue_events prof cq_name cq = (None, p1)"
    and r: "process_queue_table p1 rest = (None, prof')"
    by (auto split: prod.splits option.splits)
  from Cons.prems qe have "\<forall>evt \<in> set cq. start_before_end evt"
    "unat (num_events prof) + length cq < 2 ^ 32" by auto
  from process_queue_events_paired [OF a this Cons.prems(4,5)]
  have n1: "unat (num_events p1) = unat (num_events prof) + length cq" and i1: "ids_below p1"
    and p1: "paired (set (event_instants p1))" by auto
  from Cons.prems n1 qe have "\<forall>evt \<in> set (queued_events rest). start_before_end evt"
    "unat (num_events p1) + length (queued_events rest) < 2 ^ 32" by auto
  from Cons.IH [OF r this i1 p1] n1 qe show ?case by simp
qed

lemma process_queues_paired:
  assumes pq: "cl4_prof_process_queues prof = Inr (None, prof')"
    and q: "cqueues prof = Some qs"
    and w: "\<forall>evt \<in> set (queued_events qs). start_before_end evt"
    and b: "length (queued_events qs) < 2 ^ 32"
    and n: "num_events prof = 0" and e: "event_instants prof = []"
  shows "paired (set (event_instants prof'))"
proof -
  from pq q obtain p1 where t: "process_queue_table prof qs = (None, p1)"
    and i: "event_instants prof' = event_instants p1"
    by (auto simp: cl4_prof_process_queues_def split: option.splits prod.splits)
  from b n have "unat (num_events prof) + length (queued_events qs) < 2 ^ 32" by simp
  moreover from e have "ids_below prof" by (simp add: ids_below_def)
  moreover from e have "paired (set (event_instants prof))" by (simp add: paired_def)
  ultimately show ?thesis
    using process_queue_table_paired [OF t w] i by simp
qed

lemma calc_agg_instants:
  assumes "cl4_prof_calc_agg prof = Inr prof'"
  shows "set (event_instants prof') = set (event_instants prof)"
  using assms
  by (auto simp: cl4_prof_calc_agg_def Let_def set_g_list_sort_with_data
      split: option.splits sum.splits dest!: calc_agg_loop_frame)

text \<open>Steps of the sweep keep the invariant, and an end instant adds an overlap of zero.\<close>

lemma eid_keys: "{eid_key1 a b, eid_key2 a b} = {a, b}"
  by (auto simp: eid_key1_def eid_key2_def)

lemma pair_start_start_pair:
  "pair_start (overmat_start_pair c f ovl) k1 k2 =
     (if k1 = eid_key1 (inst_id c) f \<and> k2 = eid_key2 (inst_id c) f then Some (instant c)
      else pair_start ovl k1 k2)"
  by (auto simp: pair_start_def overmat_start_pair_def Let_def g_hash_table_lookup_def
      update_conv' split: option.splits)

lemma pair_start_fold:
  "pair_start (fold (\<lambda>(key_eid, ueid). overmat_start_pair c key_eid) occ ovl) k1 k2 = Some s \<Longrightarrow>
   pair_start ovl k1 k2 = Some s
   \<or> (\<exists>f \<in> fst ` set occ. k1 = eid_key1 (inst_id c) f \<and> k2 = eid_key2 (inst_id c) f
        \<and> s = instant c)"
proof (induction occ arbitrary: ovl)
  case Nil
  then show ?case by simp
next
  case (Cons o1 occ)
  obtain f u where o1: "o1 = (f, u)" by (cases o1)
  from Cons.prems o1 have
    "pair_start (fold (\<lambda>(key_eid, ueid). overmat_start_pair c key_eid) occ
                   (overmat_start_pair c f ovl)) k1 k2 = Some s"
    by simp
  from Cons.IH [OF this] show ?case
    by (auto simp: pair_start_start_pair o1 split: if_splits)
qed

lemma overmat_end_loop_zero:
  "overmat_end_loop names n c occ st = Inr st' \<Longrightarrow>
   \<forall>f \<in> fst ` set occ. \<forall>s.
      pair_start (overlaps st) (eid_key1 (inst_id c) f) (eid_key2 (inst_id c) f) = Some s
      \<longrightarrow> s = instant c \<Longrightarrow>
   st' = st"
proof (induction occ arbitrary: st)
  case Nil
  then show ?case by simp
next
  case (Cons o1 occ)
  obtain f u where o1: "o1 = (f, u)" by (cases o1)
  from Cons.prems(1) o1 obtain s where
    l: "pair_start (overlaps st) (eid_key1 (inst_id c) f) (eid_key2 (inst_id c) f) = Some s"
    by (auto simp: Let_def pair_start_def split: option.splits)
  with Cons.prems(2) o1 have s: "s = instant c" by auto
  from Cons.prems(1) o1 l obtain m where m: "overlap_matrix st = Some m"
    by (auto simp: Let_def pair_start_def split: option.splits)
  have same: "st\<lparr>overlap_matrix := Some m\<rparr> = st"
    by (simp add: m [symmetric])
  from Cons.prems(1) o1 l s m
  have "overmat_end_loop names n c occ (st\<lparr>overlap_matrix := Some m\<rparr>) = Inr st'"
    by (auto simp: Let_def pair_start_def split: option.splits if_splits)
  then have r: "overmat_end_loop names n c occ st = Inr st'"
    by (simp only: same)
  from Cons.prems(2) have "\<forall>f \<in> fst ` set occ. \<forall>s.
      pair_start (overlaps st) (eid_key1 (inst_id c) f) (eid_key2 (inst_id c) f) = Some s
      \<longrightarrow> s = instant c"
    by simp
  from Cons.IH [OF r this] show ?case .
qed

lemma keys_update: "fst ` set (AList.update k v al) = insert k (fst ` set al)"
  by (induction al) auto

lemma started_snoc: "started pre f \<Longrightarrow> started (pre @ [c]) f"
  by (auto simp: started_def)

lemma pair_origin_snoc:
  assumes "pair_origin pre k1 k2 s"
  shows "pair_origin (pre @ [c]) k1 k2 s"
proof -
  from assms obtain x y where "x \<in> set pre" "y \<in> set pre"
    "inst_type x = CL4_PROF_EV_START \<and> inst_type y = CL4_PROF_EV_START
        \<and> {inst_id x, inst_id y} = {k1, k2} \<and> instant x = s \<and> s \<le> instant y"
    unfolding pair_origin_def by (elim bexE)
  then have "x \<in> set (pre @ [c])" "y \<in> set (pre @ [c])"
    "inst_type x = CL4_PROF_EV_START \<and> inst_type y = CL4_PROF_EV_START
        \<and> {inst_id x, inst_id y} = {k1, k2} \<and> instant x = s \<and> s \<le> instant y"
    by simp_all
  then show ?thesis unfolding pair_origin_def by (intro bexI)
qed

lemma pair_origin_new:
  assumes c: "inst_type c = CL4_PROF_EV_START"
    and f: "started pre f"
    and later: "\<forall>x \<in> set pre. instant c \<le> instant x"
  shows "pair_origin (pre @ [c]) (eid_key1 (inst_id c) f) (eid_key2 (inst_id c) f) (instant c)"
proof -
  from f obtain y where y: "y \<in> set pre" "inst_id y = f" "inst_type y = CL4_PROF_EV_START"
    unfolding started_def by (elim bexE conjE)
  from later y have "instant c \<le> instant y" by simp
  moreover have "{inst_id c, inst_id y} = {eid_key1 (inst_id c) f, eid_key2 (inst_id c) f}"
    by (simp only: y eid_keys)
  ultimately have "inst_type c = CL4_PROF_EV_START \<and> inst_type y = CL4_PROF_EV_START
        \<and> {inst_id c, inst_id y} = {eid_key1 (inst_id c) f, eid_key2 (inst_id c) f}
        \<and> instant c = instant c \<and> instant c \<le> instant y"
    using c y by simp
  moreover have "c \<in> set (pre @ [c])" "y \<in> set (pre @ [c])" using y by simp_all
  ultimately show ?thesis unfolding pair_origin_def by (intro bexI)
qed

lemma pairedD:
  "paired S \<Longrightarrow> x \<in> S \<Longrightarrow> y \<in> S \<Longrightarrow> inst_id x = inst_id y \<Longrightarrow>
   inst_type x = CL4_PROF_EV_START \<Longrightarrow> inst_type y = CL4_PROF_EV_END \<Longrightarrow> instant x \<le> instant y"
  unfolding paired_def by blast

lemma pair_origin_end:
  assumes w: "pair_origin pre (eid_key1 (inst_id c) f) (eid_key2 (inst_id c) f) s"
    and e: "inst_type c = CL4_PROF_EV_END"
    and later: "\<forall>x \<in> set pre. instant c \<le> instant x"
    and pr: "paired (insert c (set pre))"
  shows "s = instant c"
proof -
  from w obtain x y where xy: "x \<in> set pre" "y \<in> set pre"
    "inst_type x = CL4_PROF_EV_START" "inst_type y = CL4_PROF_EV_START"
    "{inst_id x, inst_id y} = {eid_key1 (inst_id c) f, eid_key2 (inst_id c) f}"
    "instant x = s" "s \<le> instant y"
    unfolding pair_origin_def by (elim bexE conjE)
  from xy(5) have "{inst_id x, inst_id y} = {inst_id c, f}" by (simp only: eid_keys)
  then have "inst_id x = inst_id c \<or> inst_id y = inst_id c"
    by (auto simp: doubleton_eq_iff)
  then have "s \<le> instant c"
  proof
    assume i: "inst_id x = inst_id c"
    from pairedD [OF pr _ _ i] xy e have "instant x \<le> instant c" by simp
    with xy show ?thesis by simp
  next
    assume i: "inst_id y = inst_id c"
    from pairedD [OF pr _ _ i] xy e have "instant y \<le> instant c" by simp
    with xy show ?thesis by simp
  qed
  moreover from later xy have "instant c \<le> s" by auto
  ultimately show ?thesis by simp
qed

lemma sweep_inv_started: "sweep_inv pre st \<Longrightarrow> f \<in> fst ` set (occurring_events st) \<Longrightarrow> started pre f"
  by (auto simp: sweep_inv_def)

lemma sweep_inv_pair:
  "sweep_inv pre st \<Longrightarrow> pair_start (overlaps st) k1 k2 = Some s \<Longrightarrow> pair_origin pre k1 k2 s"
  by (simp add: sweep_inv_def)

lemma sweep_inv_total: "sweep_inv pre st \<Longrightarrow> total_overlap st = 0"
  by (simp add: sweep_inv_def)

lemma overmat_step_inv:
  assumes step: "overmat_step names n c st = Inr st'"
    and inv: "sweep_inv pre st"
    and later: "\<forall>x \<in> set pre. instant c \<le> instant x"
    and pr: "paired (insert c (set pre))"
  shows "sweep_inv (pre @ [c]) st'"
proof (cases "inst_type c = CL4_PROF_EV_START")
  case True
  with step have st': "st' = st\<lparr>overlaps :=
                     fold (\<lambda>(key_eid, ueid). overmat_start_pair c key_eid)
                       (occurring_events st) (overlaps st),
                   occurring_events :=
                     AList.update (inst_id c)
                       (GPOINTER_TO_UINT (g_hash_table_lookup names (inst_event_name c)))
                       (occurring_events st)\<rparr>"
    by (simp add: overmat_step_def)
  have occ: "started (pre @ [c]) f" if "f \<in> fst ` set (occurring_events st')" for f
  proof -
    from that have "f = inst_id c \<or> f \<in> fst ` set (occurring_events st)"
      by (simp add: st' keys_update)
    then show ?thesis
    proof
      assume "f = inst_id c"
      with True show ?thesis by (simp add: started_def)
    next
      assume "f \<in> fst ` set (occurring_events st)"
      from started_snoc [OF sweep_inv_started [OF inv this]] show ?thesis .
    qed
  qed
  have ovl: "pair_origin (pre @ [c]) k1 k2 s"
    if ps: "pair_start (overlaps st') k1 k2 = Some s" for k1 k2 s
  proof -
    from ps have "pair_start (fold (\<lambda>(key_eid, ueid). overmat_start_pair c key_eid)
                       (occurring_events st) (overlaps st)) k1 k2 = Some s"
      by (simp add: st')
    from pair_start_fold [OF this] show ?thesis
    proof
      assume "pair_start (overlaps st) k1 k2 = Some s"
      from pair_origin_snoc [OF sweep_inv_pair [OF inv this]] show ?thesis .
    next
      assume "\<exists>f \<in> fst ` set (occurring_events st).
             k1 = eid_key1 (inst_id c) f \<and> k2 = eid_key2 (inst_id c) f \<and> s = instant c"
      then obtain f where f: "f \<in> fst ` set (occurring_events st)"
        and k: "k1 = eid_key1 (inst_id c) f" "k2 = eid_key2 (inst_id c) f" "s = instant c"
        by (elim bexE conjE)
      from pair_origin_new [OF True sweep_inv_started [OF inv f] later] k show ?thesis
        by simp
    qed
  qed
  from sweep_inv_total [OF inv] have "total_overlap st' = 0" by (simp add: st')
  with occ ovl show ?thesis unfolding sweep_inv_def by (intro conjI ballI allI impI)
next
  case False
  then have e: "inst_type c = CL4_PROF_EV_END" by (cases "inst_type c") simp_all
  let ?st1 = "st\<lparr>occurring_events := g_hash_table_remove (occurring_events st) (inst_id c)\<rparr>"
  from step False have l: "overmat_end_loop names n c (occurring_events ?st1) ?st1 = Inr st'"
    by (simp add: overmat_step_def Let_def)
  have z: "\<forall>f \<in> fst ` set (occurring_events ?st1). \<forall>s.
      pair_start (overlaps ?st1) (eid_key1 (inst_id c) f) (eid_key2 (inst_id c) f) = Some s
      \<longrightarrow> s = instant c"
  proof (intro ballI allI impI)
    fix f s
    assume "pair_start (overlaps ?st1) (eid_key1 (inst_id c) f) (eid_key2 (inst_id c) f) = Some s"
    then have "pair_start (overlaps st) (eid_key1 (inst_id c) f) (eid_key2 (inst_id c) f) = Some s"
      by simp
    from pair_origin_end [OF sweep_inv_pair [OF inv this] e later pr]
    show "s = instant c" .
  qed
  from overmat_end_loop_zero [OF l z] have st': "st' = ?st1" .
  have sub: "fst ` set (occurring_events ?st1) \<subseteq> fst ` set (occurring_events st)"
    by (induction "occurring_events st") (auto simp: g_hash_table_remove_def AList.delete_eq)
  have occ: "started (pre @ [c]) f" if "f \<in> fst ` set (occurring_events ?st1)" for f
  proof -
    from that sub have "f \<in> fst ` set (occurring_events st)" by (rule subsetD [rotated])
    from started_snoc [OF sweep_inv_started [OF inv this]] show ?thesis .
  qed
  have ovl: "pair_origin (pre @ [c]) k1 k2 s"
    if ps: "pair_start (overlaps ?st1) k1 k2 = Some s" for k1 k2 s
  proof -
    from ps have "pair_start (overlaps st) k1 k2 = Some s" by simp
    from pair_origin_snoc [OF sweep_inv_pair [OF inv this]] show ?thesis .
  qed
  from sweep_inv_total [OF inv] have "total_overlap ?st1 = 0" by simp
  with occ ovl show ?thesis unfolding sweep_inv_def st' by (intro conjI ballI allI impI)
qed

lemma overmat_step_matrix:
  assumes step: "overmat_step names n c st = Inr st'"
    and inv: "sweep_inv pre st"
    and later: "\<forall>x \<in> set pre. instant c \<le> instant x"
    and pr: "paired (insert c (set pre))"
  shows "overlap_matrix st' = overlap_matrix st"
proof (cases "inst_type c = CL4_PROF_EV_START")
  case True
  with step show ?thesis by (auto simp: overmat_step_def)
next
  case False
  then have e: "inst_type c = CL4_PROF_EV_END" by (cases "inst_type c") simp_all
  let ?st1 = "st\<lparr>occurring_events := g_hash_table_remove (occurring_events st) (inst_id c)\<rparr>"
  from step False have l: "overmat_end_loop names n c (occurring_events ?st1) ?st1 = Inr st'"
    by (simp add: overmat_step_def Let_def)
  have z: "\<forall>f \<in> fst ` set (occurring_events ?st1). \<forall>s.
      pair_start (overlaps ?st1) (eid_key1 (inst_id c) f) (eid_key2 (inst_id c) f) = Some s
      \<longrightarrow> s = instant c"
  proof (intro ballI allI impI)
    fix f s
    assume "pair_start (overlaps ?st1) (eid_key1 (inst_id c) f) (eid_key2 (inst_id c) f) = Some s"
    then have "pair_start (overlaps st) (eid_key1 (inst_id c) f) (eid_key2 (inst_id c) f) = Some s"
      by simp
    from pair_origin_end [OF sweep_inv_pair [OF inv this] e later pr]
    show "s = instant c" .
  qed
  from overmat_end_loop_zero [OF l z] show ?thesis by simp
qed

lemma overmat_loop_inv:
  "overmat_loop names n rest st = Inr st' \<Longrightarrow> sweep_inv pre st \<Longrightarrow>
   sorted_wrt later_first (pre @ rest) \<Longrightarrow> paired (set (pre @ rest)) \<Longrightarrow>
   sweep_inv (pre @ rest) st'"
proof (induction rest arbitrary: pre st)
  case Nil
  then show ?case by simp
next
  case (Cons c rest)
  from Cons.prems(1) obtain st1 where s: "overmat_step names n c st = Inr st1"
    and r: "overmat_loop names n rest st1 = Inr st'"
    by (auto split: sum.splits)
  from Cons.prems(3) have later: "\<forall>x \<in> set pre. instant c \<le> instant x"
    by (auto simp: sorted_wrt_append)
  from Cons.prems(4) have "paired (insert c (set pre))"
    unfolding paired_def by auto
  from overmat_step_inv [OF s Cons.prems(2) later this] have i1: "sweep_inv (pre @ [c]) st1" .
  from Cons.IH [OF r i1] Cons.prems(3,4) show ?case by simp
qed

lemma overmat_loop_matrix:
  "overmat_loop names n rest st = Inr st' \<Longrightarrow> sweep_inv pre st \<Longrightarrow>
   sorted_wrt later_first (pre @ rest) \<Longrightarrow> paired (set (pre @ rest)) \<Longrightarrow>
   overlap_matrix st' = overlap_matrix st"
proof (induction rest arbitrary: pre st)
  case Nil
  then show ?case by simp
next
  case (Cons c rest)
  from Cons.prems(1) obtain st1 where s: "overmat_step names n c st = Inr st1"
    and r: "overmat_loop names n rest st1 = Inr st'"
    by (auto split: sum.splits)
  from Cons.prems(3) have later: "\<forall>x \<in> set pre. instant c \<le> instant x"
    by (auto simp: sorted_wrt_append)
  from Cons.prems(4) have p: "paired (insert c (set pre))"
    unfolding paired_def by auto
  from overmat_step_inv [OF s Cons.prems(2) later p] have i1: "sweep_inv (pre @ [c]) st1" .
  from Cons.IH [OF r i1] Cons.prems(3,4) overmat_step_matrix [OF s Cons.prems(2) later p]
  show ?case by simp
qed

text \<open>
  So a sweep that ends, over paired instants, has added no overlap and has left the matrix as
  it was allocated.
\<close>

lemma overmat_sweep_zero:
  assumes sw: "overmat_sweep prof = Inr st" and pr: "paired (set (event_instants prof))"
  shows "total_overlap st = 0
    \<and> overlap_matrix st = g_new0 (g_hash_table_size (event_names prof)
                                   * g_hash_table_size (event_names prof))"
proof -
  let ?st0 = "\<lparr>overlaps = [], occurring_events = [],
               overlap_matrix = g_new0 (g_hash_table_size (event_names prof)
                                        * g_hash_table_size (event_names prof)),
               total_overlap = 0\<rparr>"
  from sw have l: "overmat_loop (event_names prof) (g_hash_table_size (event_names prof))
                     (overmat_instants prof) ?st0 = Inr st"
    by (simp add: overmat_sweep_def Let_def)
  have i0: "sweep_inv [] ?st0"
    by (simp add: sweep_inv_def pair_start_def g_hash_table_lookup_def)
  have s: "sorted_wrt later_first ([] @ overmat_instants prof)"
    by (simp add: overmat_instants_def sorted_instants)
  from pr have p: "paired (set ([] @ overmat_instants prof))"
    by (simp add: overmat_instants_def set_g_list_sort_with_data)
  from sweep_inv_total [OF overmat_loop_inv [OF l i0 s p]] overmat_loop_matrix [OF l i0 s p]
  show ?thesis by simp
qed

lemma calc_instants_paired:
  assumes pq: "cl4_prof_process_queues
                 (cl4_prof_new\<lparr>cqueues := Some qs, timer := tm, aggregate := Some [],
                    event_names := Some []\<rparr>) = Inr (None, p2)"
    and agg: "cl4_prof_calc_agg p2 = Inr p3"
    and w: "\<forall>evt \<in> set (queued_events qs). start_before_end evt"
    and b: "length (queued_events qs) < 2 ^ 32"
  shows "paired (set (event_instants p3))"
proof -
  let ?p1 = "cl4_prof_new\<lparr>cqueues := Some qs, timer := tm, aggregate := Some [],
               event_names := Some []\<rparr>"
  have "cqueues ?p1 = Some qs" "num_events ?p1 = 0" "event_instants ?p1 = []"
    by (simp_all add: cl4_prof_new_def)
  from process_queues_paired [OF pq this(1) w b this(2,3)]
  have "paired (set (event_instants p2))" .
  with calc_agg_instants [OF agg] show ?thesis by simp
qed

text \<open>
  For every table of queues whose events do not end before they start, with fewer than
  \<open>2 ^ 32\<close> events: if calculate returns, the overlap matrix holds only zeros.
\<close>

lemma calc_overmat_zero:
  assumes c: "calc_profile (cl4_prof_calc (Some (cl4_prof_new\<lparr>cqueues := Some qs, timer := tm\<rparr>)))
                = Some p"
    and w: "\<forall>evt \<in> set (queued_events qs). start_before_end evt"
    and b: "length (queued_events qs) < 2 ^ 32"
    and m: "overmat p = Some mat"
  shows "\<forall>v \<in> set mat. v = 0"
proof -
  from calc_success [OF c] obtain p2 p3 where
    pq: "cl4_prof_process_queues
           (cl4_prof_new\<lparr>cqueues := Some qs, timer := tm, aggregate := Some [],
              event_names := Some []\<rparr>) = Inr (None, p2)"
    and agg: "cl4_prof_calc_agg p2 = Inr p3" and ov: "cl4_prof_calc_overmat p3 = Inr p"
    by auto
  from ov obtain st where sw: "overmat_sweep p3 = Inr st" and o: "overmat p = overlap_matrix st"
    by (auto simp: cl4_prof_calc_overmat_def split: sum.splits)
  from overmat_sweep_zero [OF sw calc_instants_paired [OF pq agg w b]] o m
  have "g_new0 (g_hash_table_size (event_names p3) * g_hash_table_size (event_names p3))
          = Some mat"
    by simp
  then show ?thesis by (auto simp: g_new0_def split: if_splits)
qed

subsection \<open>The effective time\<close>


text \<open>
  Where no event ends before it starts and the event ids do not wrap around, the descending
  sweep of this code adds no overlap at all.
\<close>

lemma calc_total_overlap_zero:
  assumes c: "calc_total_overlap (Some (cl4_prof_new\<lparr>cqueues := Some qs, timer := tm\<rparr>)) = Some ov"
    and w: "\<forall>evt \<in> set (queued_events qs). start_before_end evt"
    and b: "length (queued_events qs) < 2 ^ 32"
  shows "ov = 0"
proof -
  from c obtain p2 p3 st where
    pq: "cl4_prof_process_queues
           (cl4_prof_new\<lparr>cqueues := Some qs, timer := tm, aggregate := Some [],
              event_names := Some []\<rparr>) = Inr (None, p2)"
    and agg: "cl4_prof_calc_agg p2 = Inr p3" and sw: "overmat_sweep p3 = Inr st"
    and ov: "ov = total_overlap st"
    by (auto simp: calc_total_overlap_def split: sum.splits option.splits prod.splits)
  from overmat_sweep_zero [OF sw calc_instants_paired [OF pq agg w b]] ov show ?thesis by simp
qed




subsection \<open>Ingest errors\<close>




text \<open>The error of the ingest pass is the result of \<^verbatim>\<open>cl4_prof_calc\<close>.\<close>

lemma ingest_error_is_fatal:
  assumes "aggregate p = None" and "cqueues p = Some qs"
    and "process_queue_table (p\<lparr>aggregate := Some [], event_names := Some []\<rparr>) qs = (Some e, p')"
  shows "cl4_prof_calc (Some p) = Inr (False, Some e, Some p')"
  using assms by (simp add: cl4_prof_calc_def cl4_prof_process_queues_def)

text \<open>\<^verbatim>\<open>cl4_prof_add_event\<close> returns an error exactly when one of the four queries fails.\<close>

lemma add_event_error_iff:
  "(\<exists>e. fst (cl4_prof_add_event prof cq_name evt) = Some e)
     \<longleftrightarrow> (\<exists>e. info_start evt = Inl e \<or> info_end evt = Inl e \<or> info_queued evt = Inl e
              \<or> info_submit evt = Inl e)"
  by (cases "info_start evt"; cases "info_end evt"; cases "info_queued evt";
      cases "info_submit evt")
    (auto simp: cl4_prof_add_event_def Let_def)

subsection \<open>The aggregates add up\<close>

lemma sum_absolute_time_update:
  "map_of aggs k = Some a \<Longrightarrow>
   sum_absolute_time (AList.update k a' aggs)
     = sum_absolute_time aggs - absolute_time a + absolute_time a'"
  by (induction aggs) (auto simp: sum_absolute_time_def)

lemma sum_absolute_time_zero:
  "\<forall>x \<in> set aggs. absolute_time (snd x) = 0 \<Longrightarrow> sum_absolute_time aggs = 0"
  by (induction aggs) (auto simp: sum_absolute_time_def)

lemma sum_absolute_time_relative:
  "sum_absolute_time (map (\<lambda>(event_name, agg). (event_name, agg\<lparr>relative_time := r agg\<rparr>)) aggs)
     = sum_absolute_time aggs"
  by (induction aggs) (auto simp: sum_absolute_time_def)

lemma set_update_subset: "set (AList.update k v al) \<subseteq> insert (k, v) (set al)"
  by (induction al) auto

lemma agg_init_zero:
  "\<forall>x \<in> set aggs. absolute_time (snd x) = 0 \<Longrightarrow>
   \<exists>aggs'. fold (\<lambda>(event_name, uid) t.
                g_hash_table_insert t event_name
                  ((cl4_prof_eventagg_new event_name)\<lparr>absolute_time := 0\<rparr>))
             names (Some aggs) = Some aggs'
          \<and> (\<forall>x \<in> set aggs'. absolute_time (snd x) = 0)"
proof (induction names arbitrary: aggs)
  case Nil
  then show ?case by simp
next
  case (Cons n names)
  obtain event_name uid where n: "n = (event_name, uid)" by (cases n)
  let ?a = "(cl4_prof_eventagg_new event_name)\<lparr>absolute_time := 0\<rparr>"
  have "\<forall>x \<in> set (AList.update event_name ?a aggs). absolute_time (snd x) = 0"
    using Cons.prems set_update_subset [of event_name ?a aggs] by auto
  from Cons.IH [OF this] show ?case
    by (simp add: n g_hash_table_insert_def)
qed

lemma calc_agg_loop_sum:
  "calc_agg_loop insts prof = Inr prof' \<Longrightarrow> aggregate prof = Some aggs \<Longrightarrow>
   \<exists>aggs'. aggregate prof' = Some aggs'
     \<and> sum_absolute_time aggs' - total_events_time prof'
         = sum_absolute_time aggs - total_events_time prof"
proof (induction insts prof arbitrary: aggs rule: calc_agg_loop.induct)
  case (1 prof)
  then show ?case by simp
next
  case (2 s prof)
  then show ?case by simp
next
  case (3 s e rest prof)
  from "3.prems" obtain curr_agg where
    l: "g_hash_table_lookup (aggregate prof) (inst_event_name e) = Some curr_agg"
    by (auto simp: Let_def split: option.splits)
  let ?d = "instant e - instant s"
  let ?aggs1 = "AList.update (inst_event_name e)
                  (curr_agg\<lparr>absolute_time := absolute_time curr_agg + ?d\<rparr>) aggs"
  let ?prof1 = "prof\<lparr>aggregate := Some ?aggs1, total_events_time := total_events_time prof + ?d\<rparr>"
  from l "3.prems"(2) have m: "map_of aggs (inst_event_name e) = Some curr_agg"
    by (simp add: g_hash_table_lookup_def)
  from "3.prems" l have r: "calc_agg_loop rest ?prof1 = Inr prof'"
    by (simp add: Let_def g_hash_table_insert_def)
  have a1: "aggregate ?prof1 = Some ?aggs1" by simp
  from "3.IH" [OF refl refl l, of ?aggs1] r "3.prems"(2)
  obtain aggs' where a': "aggregate prof' = Some aggs'"
    and s': "sum_absolute_time aggs' - total_events_time prof'
               = sum_absolute_time ?aggs1 - total_events_time ?prof1"
    by (auto simp: Let_def g_hash_table_insert_def)
  have "sum_absolute_time ?aggs1 - total_events_time ?prof1
          = sum_absolute_time aggs - total_events_time prof"
    by (simp add: sum_absolute_time_update [OF m])
  with a' s' show ?case by simp
qed

lemma calc_agg_sum:
  assumes "cl4_prof_calc_agg prof = Inr prof'" and "aggregate prof = Some []"
    and "total_events_time prof = 0"
  shows "\<exists>aggs. aggregate prof' = Some aggs \<and> sum_absolute_time aggs = total_events_time prof'"
proof -
  from assms(1) obtain names where names: "event_names prof = Some names"
    by (auto simp: cl4_prof_calc_agg_def split: option.splits)
  from agg_init_zero [of "[]" names] obtain aggs0 where
    i: "fold (\<lambda>(event_name, uid) t.
                g_hash_table_insert t event_name
                  ((cl4_prof_eventagg_new event_name)\<lparr>absolute_time := 0\<rparr>))
             names (Some []) = Some aggs0"
    and z: "\<forall>x \<in> set aggs0. absolute_time (snd x) = 0"
    by auto
  let ?prof2 = "prof\<lparr>aggregate := Some aggs0,
                  event_instants :=
                    g_list_sort_with_data (cl4_prof_eventinst_comp CL4_PROF_EVENTINST_SORT_ID)
                      (event_instants prof)\<rparr>"
  from assms(1,2) names i obtain prof3 aggs3 where
    l: "calc_agg_loop (event_instants ?prof2) ?prof2 = Inr prof3"
    and a3: "aggregate prof3 = Some aggs3"
    and p': "prof' = prof3\<lparr>aggregate :=
               Some (map (\<lambda>(event_name, curr_agg).
                            (event_name,
                             curr_agg\<lparr>relative_time :=
                               Some (ulong_div_double (absolute_time curr_agg)
                                       (total_events_time prof3))\<rparr>))
                       aggs3)\<rparr>"
    by (auto simp: cl4_prof_calc_agg_def Let_def split: option.splits sum.splits)
  from calc_agg_loop_sum [OF l, of aggs0] a3 assms(3) sum_absolute_time_zero [OF z]
  have "sum_absolute_time aggs3 = total_events_time prof3" by simp
  with p' show ?thesis
    by (simp add: sum_absolute_time_relative)
qed

text \<open>
  C6. For every table of queues, after a successful calculate the absolute times of the
  aggregate entries add up to the total time of all events. Both sides are \<^verbatim>\<open>cl_ulong\<close>;
  the sum is taken in that type, as the total is.
\<close>

theorem C6_aggregate_sum:
  assumes "calc_profile (cl4_prof_calc (Some (cl4_prof_new\<lparr>cqueues := qs, timer := tm\<rparr>))) = Some p"
  shows "\<exists>aggs. aggregate p = Some aggs \<and> sum_absolute_time aggs = total_events_time p"
proof -
  let ?p0 = "cl4_prof_new\<lparr>cqueues := qs, timer := tm\<rparr>"
  from calc_success [OF assms] obtain p2 p3 where
    pq: "cl4_prof_process_queues (?p0\<lparr>aggregate := Some [], event_names := Some []\<rparr>)
           = Inr (None, p2)"
    and agg: "cl4_prof_calc_agg p2 = Inr p3" and ov: "cl4_prof_calc_overmat p3 = Inr p"
    by auto
  from process_queues_frame [OF pq] have "aggregate p2 = Some []" "total_events_time p2 = 0"
    by (simp_all add: cl4_prof_new_def)
  from calc_agg_sum [OF agg this] calc_overmat_frame [OF ov] show ?thesis by simp
qed

theorem C6_aggregate_sum_witness:
  "\<exists>p. calc_profile (cl4_prof_calc (Some (cl4_prof_new\<lparr>cqueues := Some [(1, ''q0'', [completed_event ''a'' 100 300, completed_event ''b'' 200 400])], timer := None\<rparr>))) = Some p
    \<and> (\<exists>aggs. aggregate p = Some aggs \<and> sum_absolute_time aggs = total_events_time p)
    \<and> total_events_time p = 400"
proof -
  have "map_option total_events_time (calc_profile (cl4_prof_calc (Some (cl4_prof_new\<lparr>cqueues := Some [(1, ''q0'', [completed_event ''a'' 100 300, completed_event ''b'' 200 400])], timer := None\<rparr>)))) = Some 400"
    by code_simp
  then obtain p where p: "calc_profile (cl4_prof_calc (Some (cl4_prof_new\<lparr>cqueues := Some [(1, ''q0'', [completed_event ''a'' 100 300, completed_event ''b'' 200 400])], timer := None\<rparr>))) = Some p"
    and t: "total_events_time p = 400"
    by auto
  from C6_aggregate_sum [OF p] p t show ?thesis by blast
qed

text \<open>Read as numbers, the total is the sum of the absolute times modulo \<open>2 ^ 64\<close>.\<close>

lemma unat_sum_list: "unat (sum_list (ws :: cl_ulong list)) = sum_list (map unat ws) mod 2 ^ 64"
  by (induction ws) (simp_all add: unat_word_ariths mod_add_right_eq)

subsection \<open>Relative times\<close>

text \<open>
  C7 (amended). After a successful calculate the relative time of every aggregate entry is the
  floating-point quotient of its absolute time and the total time of all events, computed
  without a test of the divisor: where the total is 0 it is not a number if the absolute time
  is 0 too, and infinite otherwise.
\<close>

theorem C7_relative_time_unguarded:
  assumes "calc_profile (cl4_prof_calc prof) = Some p"
  shows "\<exists>aggs. aggregate p = Some aggs
    \<and> (\<forall>(name, agg) \<in> set aggs.
         relative_time agg =
           Some (if total_events_time p \<noteq> 0
                 then Finite (real (unat (absolute_time agg)) / real (unat (total_events_time p)))
                 else if absolute_time agg = 0 then NaN else PlusInf))"
proof -
  from calc_success [OF assms] obtain p2 p3 where
    agg: "cl4_prof_calc_agg p2 = Inr p3" and ov: "cl4_prof_calc_overmat p3 = Inr p"
    by blast
  from agg have "\<exists>aggs. aggregate p3 = Some aggs
    \<and> (\<forall>(name, agg) \<in> set aggs.
         relative_time agg = Some (ulong_div_double (absolute_time agg) (total_events_time p3)))"
    by (auto simp: cl4_prof_calc_agg_def Let_def split: option.splits sum.splits)
  then obtain aggs where a: "aggregate p3 = Some aggs"
    and r: "\<And>name agg. (name, agg) \<in> set aggs \<Longrightarrow>
         relative_time agg = Some (ulong_div_double (absolute_time agg) (total_events_time p3))"
    by blast
  from calc_overmat_frame [OF ov] have f: "aggregate p = aggregate p3"
    "total_events_time p = total_events_time p3" by simp_all
  show ?thesis
    unfolding f a using r by (auto simp: ulong_div_double_def)
qed

theorem C7_relative_time_unguarded_witness:
  "\<exists>p. calc_profile (cl4_prof_calc scenario_S1) = Some p
    \<and> (\<exists>aggs. aggregate p = Some aggs
    \<and> (\<forall>(name, agg) \<in> set aggs.
         relative_time agg =
           Some (if total_events_time p \<noteq> 0
                 then Finite (real (unat (absolute_time agg)) / real (unat (total_events_time p)))
                 else if absolute_time agg = 0 then NaN else PlusInf)))"
proof -
  have "calc_profile (cl4_prof_calc scenario_S1) \<noteq> None" by code_simp
  then obtain p where p: "calc_profile (cl4_prof_calc scenario_S1) = Some p" by blast
  from C7_relative_time_unguarded [OF p] p show ?thesis by blast
qed

text \<open>A single event of length zero: the total is 0 and the relative time is not 0.\<close>

theorem C7_division_by_zero_counterexample:
  "cl4_prof_get_eventagg (calc_profile (cl4_prof_calc scenario_zero_length)) ''a''
     = Some \<lparr>agg_event_name = ''a'', absolute_time = 0, relative_time = Some NaN\<rparr>
   \<and> map_option total_events_time (calc_profile (cl4_prof_calc scenario_zero_length)) = Some 0"
  by code_simp

subsection \<open>Export\<close>

text \<open>
  C3. With \<^verbatim>\<open>zero_start\<close> set, as it is initially, the exported start and end times should be
  relative to the start time of the profile. \<^verbatim>\<open>cl4_prof_export_info\<close> never reads the
  option nor the start time. In scenario S6 (start time 1000, one event from 1100 to 1200) it
  writes the device times 1100 and 1200, not 100 and 200; after the calculation of a single
  event from 1100 to 1200, where the start time is 1100, it writes 1100 and 1200, not 0 and 100.
\<close>

theorem C3_export_ignores_zero_start:
  "cl4_prof_export_info export_options scenario_S6 (Some empty_stream)
     = (True, None, scenario_S6,
        Some \<lparr>written = ''q0'' @ [CHR 0x09] @ ''1100'' @ [CHR 0x09] @ ''1200'' @ [CHR 0x09]
                          @ ''k'' @ [CHR 0x0A],
              writes_left = None\<rparr>)
   \<and> map_option start_time (calc_profile (cl4_prof_calc scenario_single)) = Some 1100
   \<and> map_option written (snd (snd (snd
         (cl4_prof_export_info export_options (calc_profile (cl4_prof_calc scenario_single))
            (Some empty_stream)))))
       = Some (''q0'' @ [CHR 0x09] @ ''1100'' @ [CHR 0x09] @ ''1200'' @ [CHR 0x09] @ ''k''
               @ [CHR 0x0A])"
  by code_simp

text \<open>The output is the same for both values of the option.\<close>

lemma export_line_zero_start:
  "export_line (opts\<lparr>zero_start := b\<rparr>) ev = export_line opts ev"
  by (simp add: export_line_def)

lemma export_loop_zero_start:
  "export_loop (opts\<lparr>zero_start := b\<rparr>) evs st = export_loop opts evs st"
  by (induction evs arbitrary: st) (simp_all add: export_line_zero_start split: prod.splits)

lemma export_info_zero_start:
  "cl4_prof_export_info (opts\<lparr>zero_start := b\<rparr>) prof stream
     = cl4_prof_export_info opts prof stream"
  by (simp add: cl4_prof_export_info_def export_loop_zero_start Let_def split: option.splits)

text \<open>
  C4. The export should write one line per event in ascending order of the start times. The
  sort uses \<open>CL4_PROF_CMP\<close>, whose sign is reversed: after the calculation of scenario S3 the
  line of the event that starts at 200 is written before the line of the event that starts at
  100.
\<close>

theorem C4_export_descending:
  "map_option written (snd (snd (snd
     (cl4_prof_export_info export_options (calc_profile (cl4_prof_calc scenario_S3))
        (Some empty_stream)))))
   = Some (''q0'' @ [CHR 0x09] @ ''200'' @ [CHR 0x09] @ ''400'' @ [CHR 0x09] @ ''b'' @ [CHR 0x0A]
           @ ''q0'' @ [CHR 0x09] @ ''100'' @ [CHR 0x09] @ ''300'' @ [CHR 0x09] @ ''a''
           @ [CHR 0x0A])"
  by code_simp

text \<open>
  On a stream that takes every write, the export writes the lines of the sorted events, one
  for each event (\<open>length_g_list_sort_with_data\<close>), in descending order of the start times
  (\<open>sorted_events\<close>).
\<close>

lemma export_loop_lines:
  "writes_left st = None \<Longrightarrow>
   export_loop opts evs st
     = (None, \<lparr>written = written st @ concat (map (export_line opts) evs), writes_left = None\<rparr>)"
  by (induction evs arbitrary: st) (simp_all add: fprintf_def)

lemma export_info_lines:
  "cl4_prof_export_info opts (Some p) (Some \<lparr>written = [], writes_left = None\<rparr>)
     = (True, None,
        Some (p\<lparr>events := g_list_sort_with_data (cl4_prof_event_comp CL4_PROF_EVENT_SORT_T_START)
                            (events p)\<rparr>),
        Some \<lparr>written = concat (map (export_line opts)
                 (g_list_sort_with_data (cl4_prof_event_comp CL4_PROF_EVENT_SORT_T_START)
                    (events p))),
              writes_left = None\<rparr>)"
  by (simp add: cl4_prof_export_info_def export_loop_lines)

subsection \<open>Misuse\<close>

text \<open>
  Before the calculation a profile is a fresh one with some table of queues and some timer.
\<close>

lemma pre_calc_step:
  assumes "apply_call c (Some (cl4_prof_new\<lparr>cqueues := qs, timer := tm\<rparr>)) = Inr prof'"
    and "c \<noteq> Calc"
  shows "\<exists>qs' tm'. prof' = Some (cl4_prof_new\<lparr>cqueues := qs', timer := tm'\<rparr>)"
proof (cases c)
  case (Start now)
  with assms show ?thesis by (auto simp: cl4_prof_start_def)
next
  case (Stop now)
  with assms show ?thesis
    by (auto simp: cl4_prof_stop_def split: prod.splits)
next
  case (Elapsed now)
  with assms show ?thesis by auto
next
  case (AddQueue n q)
  with assms show ?thesis
    by (cases q) (auto simp: cl4_prof_add_queue_def cl4_prof_new_def g_hash_table_insert_def
        split: option.splits)
next
  case Calc
  with assms show ?thesis by simp
next
  case (PrintInfo now srt)
  with assms show ?thesis by (auto split: sum.splits)
next
  case (ExportInfo opts stream)
  with assms show ?thesis
    by (cases stream) (auto simp: cl4_prof_export_info_def cl4_prof_new_def Let_def
        split: prod.splits option.splits)
qed

lemma pre_calc_states:
  "apply_calls cs (Some (cl4_prof_new\<lparr>cqueues := qs, timer := tm\<rparr>)) = Inr prof \<Longrightarrow>
   Calc \<notin> set cs \<Longrightarrow>
   \<exists>qs' tm'. prof = Some (cl4_prof_new\<lparr>cqueues := qs', timer := tm'\<rparr>)"
proof (induction cs arbitrary: qs tm)
  case Nil
  then show ?case by auto
next
  case (Cons c cs)
  from Cons.prems obtain prof1 where
    s: "apply_call c (Some (cl4_prof_new\<lparr>cqueues := qs, timer := tm\<rparr>)) = Inr prof1"
    and r: "apply_calls cs prof1 = Inr prof"
    by (auto split: sum.splits)
  from Cons.prems have "c \<noteq> Calc" by auto
  from pre_calc_step [OF s this] obtain qs' tm' where
    "prof1 = Some (cl4_prof_new\<lparr>cqueues := qs', timer := tm'\<rparr>)" by blast
  with r have "apply_calls cs (Some (cl4_prof_new\<lparr>cqueues := qs', timer := tm'\<rparr>)) = Inr prof"
    by simp
  from Cons.IH [OF this] Cons.prems show ?case by auto
qed

text \<open>
  C8 (amended). Adding a queue after calculate and calling calculate a second time are rejected
  by the test that the aggregate table is \<^verbatim>\<open>NULL\<close>: the profile is unchanged and calculate
  returns \<^verbatim>\<open>CL_FALSE\<close> without an error. Reporting before calculate is not rejected:
  \<^verbatim>\<open>cl4_prof_print_info\<close> tests only the profile pointer, prints the banner and, if the timer
  was started, the elapsed time, and no table.
\<close>

theorem C8_misuse:
  "(aggregate p \<noteq> None \<longrightarrow> cl4_prof_add_queue (Some p) cq_name cq = Some p)
   \<and> (aggregate p \<noteq> None \<longrightarrow> cl4_prof_calc (Some p) = Inr (False, None, Some p))
   \<and> cl4_prof_print_info now (Some (cl4_prof_new\<lparr>cqueues := qs, timer := tm\<rparr>)) ev_aggSortType
       = Inr (ReportBanner #
              (case tm of None \<Rightarrow> []
               | Some t \<Rightarrow> [ReportElapsed (snd (g_timer_elapsed now (Some t)))]))"
  by (auto simp: cl4_prof_add_queue_def cl4_prof_calc_def cl4_prof_print_info_def
      cl4_prof_new_def g_hash_table_size_def split: option.splits)

theorem C8_misuse_witness:
  "aggregate ingest_profile \<noteq> None
   \<and> cl4_prof_add_queue (Some ingest_profile) (1, ''q0'') (Some []) = Some ingest_profile
   \<and> cl4_prof_calc (Some ingest_profile) = Inr (False, None, Some ingest_profile)
   \<and> cl4_prof_print_info 7 (Some (cl4_prof_new\<lparr>cqueues := None, timer := None\<rparr>))
        CL4_PROF_EVENTAGG_SORT_NAME = Inr [ReportBanner]"
proof -
  have h: "aggregate ingest_profile \<noteq> None" by (simp add: ingest_profile_def)
  from h C8_misuse [of ingest_profile "(1, ''q0'')" "Some []" 7 None None CL4_PROF_EVENTAGG_SORT_NAME]
  show ?thesis by simp
qed

text \<open>
  With the timer started, the report before calculate has two items; a rejected call, as on a
  \<^verbatim>\<open>NULL\<close> profile, has none.
\<close>

theorem C8_print_info_counterexample:
  "cl4_prof_print_info 7 (cl4_prof_start 2 (Some cl4_prof_new)) CL4_PROF_EVENTAGG_SORT_NAME
     = Inr [ReportBanner, ReportElapsed (5 / 1000000)]
   \<and> cl4_prof_print_info 7 None CL4_PROF_EVENTAGG_SORT_NAME = Inr []"
  by code_simp

text \<open>Once the aggregate table exists, calculate and add-queue calls change nothing.\<close>

lemma rejected_calls:
  assumes "aggregate q \<noteq> None"
    and "\<forall>c \<in> set cs. c = Calc \<or> (\<exists>cq_name cq. c = AddQueue cq_name cq)"
  shows "apply_calls cs (Some q) = Inr (Some q)"
  using assms
  by (induction cs) (auto simp: cl4_prof_calc_def cl4_prof_add_queue_def split: option.splits)

text \<open>
  C9. The aggregate table is created before the ingest pass, and the error path does not free
  it. After a calculate that returned an ingest error, a further calculate returns
  \<^verbatim>\<open>CL_FALSE\<close> at the precondition test, add-queue returns at its test, and so does every
  sequence of such calls: the profile stays as the failed call left it.
\<close>

theorem C9_failed_calc_is_final:
  assumes "cl4_prof_calc prof = Inr (False, Some e, prof')"
  shows "\<exists>q. prof' = Some q \<and> aggregate q \<noteq> None
    \<and> cl4_prof_calc prof' = Inr (False, None, prof')
    \<and> (\<forall>cq_name cq. cl4_prof_add_queue prof' cq_name cq = prof')
    \<and> (\<forall>cs. (\<forall>c \<in> set cs. c = Calc \<or> (\<exists>cq_name cq. c = AddQueue cq_name cq))
          \<longrightarrow> apply_calls cs prof' = Inr prof')"
proof -
  from assms obtain p q where p: "prof = Some p" and q: "prof' = Some q"
    and pq: "cl4_prof_process_queues (p\<lparr>aggregate := Some [], event_names := Some []\<rparr>)
               = Inr (Some e, q)"
    by (auto simp: cl4_prof_calc_def Let_def
        split: option.splits sum.splits if_splits prod.splits)
  from process_queues_frame [OF pq] have a: "aggregate q \<noteq> None" by simp
  from a have "cl4_prof_calc (Some q) = Inr (False, None, Some q)"
    by (simp add: cl4_prof_calc_def)
  moreover from a have "cl4_prof_add_queue (Some q) cq_name cq = Some q" for cq_name cq
    by (simp add: cl4_prof_add_queue_def split: option.splits)
  ultimately show ?thesis using q a rejected_calls [OF a] by blast
qed

theorem C9_failed_calc_is_final_witness:
  "\<exists>prof'. cl4_prof_calc scenario_end_fails = Inr (False, Some info_error, prof')
    \<and> (\<exists>q. prof' = Some q \<and> aggregate q \<noteq> None
    \<and> cl4_prof_calc prof' = Inr (False, None, prof')
    \<and> (\<forall>cq_name cq. cl4_prof_add_queue prof' cq_name cq = prof')
    \<and> (\<forall>cs. (\<forall>c \<in> set cs. c = Calc \<or> (\<exists>cq_name cq. c = AddQueue cq_name cq))
          \<longrightarrow> apply_calls cs prof' = Inr prof'))"
proof -
  have "map_sum id (\<lambda>r. (fst r, fst (snd r))) (cl4_prof_calc scenario_end_fails)
          = Inr (False, Some info_error)"
    by code_simp
  then obtain prof' where h: "cl4_prof_calc scenario_end_fails = Inr (False, Some info_error, prof')"
    by (cases "cl4_prof_calc scenario_end_fails") auto
  from C9_failed_calc_is_final [OF h] h show ?thesis by blast
qed

subsection \<open>The timer\<close>

lemma apply_call_timer:
  assumes "apply_call c (Some p) = Inr prof'"
  shows "\<exists>p'. prof' = Some p' \<and> (timer p' \<noteq> None \<longleftrightarrow> timer p \<noteq> None \<or> is_Start c)"
proof (cases c)
  case (Start now)
  with assms show ?thesis by (auto simp: cl4_prof_start_def)
next
  case (Stop now)
  with assms show ?thesis
    by (auto simp: cl4_prof_stop_def g_timer_stop_def split: prod.splits option.splits)
next
  case (Elapsed now)
  with assms show ?thesis by auto
next
  case (AddQueue n q)
  with assms show ?thesis
    by (auto simp: cl4_prof_add_queue_def Let_def split: option.splits if_splits)
next
  case Calc
  with assms obtain status err where "cl4_prof_calc (Some p) = Inr (status, err, prof')"
    by (auto split: sum.splits)
  from calc_timer [OF this] Calc show ?thesis by auto
next
  case (PrintInfo now srt)
  with assms show ?thesis by (auto split: sum.splits)
next
  case (ExportInfo opts stream)
  with assms show ?thesis
    by (cases stream) (auto simp: cl4_prof_export_info_def Let_def
        split: prod.splits option.splits)
qed

lemma apply_calls_timer:
  "apply_calls cs (Some p) = Inr prof \<Longrightarrow>
   \<exists>p'. prof = Some p' \<and> (timer p' \<noteq> None \<longleftrightarrow> timer p \<noteq> None \<or> (\<exists>c \<in> set cs. is_Start c))"
proof (induction cs arbitrary: p)
  case Nil
  then show ?case by auto
next
  case (Cons c cs)
  from Cons.prems obtain prof1 where s: "apply_call c (Some p) = Inr prof1"
    and r: "apply_calls cs prof1 = Inr prof"
    by (auto split: sum.splits)
  from apply_call_timer [OF s] obtain p1 where p1: "prof1 = Some p1"
    and t1: "timer p1 \<noteq> None \<longleftrightarrow> timer p \<noteq> None \<or> is_Start c" by blast
  from r p1 have "apply_calls cs (Some p1) = Inr prof" by simp
  from Cons.IH [OF this] t1 show ?case by auto
qed

text \<open>
  C10. On a profile handle obtained from \<^verbatim>\<open>cl4_prof_new\<close>, after any calls that returned:
  if \<^verbatim>\<open>cl4_prof_start\<close> was among them the timer is not \<^verbatim>\<open>NULL\<close>, and
  \<^verbatim>\<open>cl4_prof_stop\<close> and \<^verbatim>\<open>cl4_prof_time_elapsed\<close> give GLib a timer; if it was not, the
  timer is \<^verbatim>\<open>NULL\<close> and both functions hand it to GLib unchecked, which logs a critical
  message, changes nothing and returns 0 for the elapsed time.
\<close>

theorem C10_timer_needs_start:
  assumes "apply_calls cs (Some cl4_prof_new) = Inr prof"
  shows "\<exists>p. prof = Some p
    \<and> ((\<exists>c \<in> set cs. is_Start c) \<longrightarrow>
          timer p \<noteq> None \<and> fst (cl4_prof_stop now prof) = []
          \<and> fst (cl4_prof_time_elapsed now prof) = [])
    \<and> (\<not> (\<exists>c \<in> set cs. is_Start c) \<longrightarrow>
          timer p = None
          \<and> cl4_prof_stop now prof
              = ([Critical ''g_timer_stop: assertion timer != NULL failed''], prof)
          \<and> cl4_prof_time_elapsed now prof
              = ([Critical ''g_timer_elapsed: assertion timer != NULL failed''], 0))"
proof -
  from apply_calls_timer [OF assms] obtain p where p: "prof = Some p"
    and t: "timer p \<noteq> None \<longleftrightarrow> (\<exists>c \<in> set cs. is_Start c)"
    by (auto simp: cl4_prof_new_def)
  show ?thesis
  proof (cases "timer p")
    case None
    with p t show ?thesis
      by (simp add: cl4_prof_stop_def cl4_prof_time_elapsed_def g_timer_stop_def
          g_timer_elapsed_def)
  next
    case (Some tm)
    with p t show ?thesis
      by (simp add: cl4_prof_stop_def cl4_prof_time_elapsed_def g_timer_stop_def
          g_timer_elapsed_def)
  qed
qed

theorem C10_timer_needs_start_witness:
  "apply_calls [Start 2, AddQueue (1, ''q0'') (Some [])] (Some cl4_prof_new)
     = Inr (Some (cl4_prof_new\<lparr>timer := Some (g_timer_new 2), cqueues := Some [(1, ''q0'', [])]\<rparr>))
   \<and> fst (cl4_prof_stop 9
        (Some (cl4_prof_new\<lparr>timer := Some (g_timer_new 2), cqueues := Some [(1, ''q0'', [])]\<rparr>))) = []
   \<and> apply_calls [AddQueue (1, ''q0'') (Some [])] (Some cl4_prof_new)
     = Inr (Some (cl4_prof_new\<lparr>cqueues := Some [(1, ''q0'', [])]\<rparr>))
   \<and> cl4_prof_stop 9 (Some (cl4_prof_new\<lparr>cqueues := Some [(1, ''q0'', [])]\<rparr>))
     = ([Critical ''g_timer_stop: assertion timer != NULL failed''],
        Some (cl4_prof_new\<lparr>cqueues := Some [(1, ''q0'', [])]\<rparr>))"
proof -
  have a: "apply_calls [Start 2, AddQueue (1, ''q0'') (Some [])] (Some cl4_prof_new)
     = Inr (Some (cl4_prof_new\<lparr>timer := Some (g_timer_new 2), cqueues := Some [(1, ''q0'', [])]\<rparr>))"
    by code_simp
  have b: "apply_calls [AddQueue (1, ''q0'') (Some [])] (Some cl4_prof_new)
     = Inr (Some (cl4_prof_new\<lparr>cqueues := Some [(1, ''q0'', [])]\<rparr>))"
    by code_simp
  from C10_timer_needs_start [OF a, of 9] C10_timer_needs_start [OF b, of 9] a b
  show ?thesis by simp
qed

end
